theory Spec2Isabelle
  imports Main "HOL-Library.Word" "HOL-Library.AList" "HOL-Library.Char_ord"
    "HOL-Library.List_Lexorder"
begin

unbundle bit_operations_syntax

section \<open>Data model of \<^verbatim>\<open>src/lib/io/kdirwatch.cpp\<close>\<close>

text \<open>
  The engine \<^verbatim>\<open>KDirWatchPrivate\<close> is embedded for the build in which both
  \<^verbatim>\<open>HAVE_SYS_INOTIFY_H\<close> and \<^verbatim>\<open>HAVE_QFILESYSTEMWATCHER\<close> are set and
  \<^verbatim>\<open>Q_OS_WIN\<close> is not.  Pointers are modelled by what they identify:
  a \<^verbatim>\<open>KDirWatch *\<close> is an optional instance number (\<open>None\<close> is \<^verbatim>\<open>nullptr\<close>), and an
  \<^verbatim>\<open>Entry *\<close> is the key of the entry in \<^verbatim>\<open>m_mapEntries\<close>.  That key is the
  entry's \<^verbatim>\<open>path\<close> member (\<^verbatim>\<open>addEntry\<close> stores \<^verbatim>\<open>e->path = path\<close> right after
  inserting under \<^verbatim>\<open>path\<close>), so \<^verbatim>\<open>e->path\<close> reads the key.  The counters and the
  \<^verbatim>\<open>time_t\<close> and \<^verbatim>\<open>ino_t\<close> values are unbounded integers: no operation on them
  depends on wrap-around.  The link count is the exception: \<^verbatim>\<open>stat\<close> reports an
  \<^verbatim>\<open>nlink_t\<close>, which the code stores in the \<^verbatim>\<open>int\<close> member \<^verbatim>\<open>m_nlink\<close> and compares
  after a conversion to \<^verbatim>\<open>int\<close>; both go through \<open>to_int\<close>.
\<close>

type_synonym KDirWatch_ptr = "nat option"
type_synonym Entry_ptr = string

text \<open>
  The declarations of \<^verbatim>\<open>kdirwatch.h\<close> and \<^verbatim>\<open>kdirwatch_p.h\<close> are not among the
  sources.  The enumerators are used as bit flags by the code (\<^verbatim>\<open>event & Deleted\<close>,
  \<^verbatim>\<open>Deleted | Created\<close>, \<^verbatim>\<open>m_watchModes & flag\<close>), so they are given distinct bits,
  with \<^verbatim>\<open>NoChange\<close> and \<^verbatim>\<open>WatchDirOnly\<close> the empty flag sets.
\<close>

abbreviation (input) NoChange :: int where "NoChange \<equiv> 0"
abbreviation (input) Changed :: int where "Changed \<equiv> 1"
abbreviation (input) Created :: int where "Created \<equiv> 2"
abbreviation (input) Deleted :: int where "Deleted \<equiv> 4"

abbreviation (input) WatchDirOnly :: int where "WatchDirOnly \<equiv> 0"
abbreviation (input) WatchFiles :: int where "WatchFiles \<equiv> 1"
abbreviation (input) WatchSubDirs :: int where "WatchSubDirs \<equiv> 2"

text \<open>\<^verbatim>\<open>invalid_ctime\<close> is \<^verbatim>\<open>static_cast<time_t>(-1)\<close>: the sentinel of an unknown time.\<close>

abbreviation (input) invalid_ctime :: int where "invalid_ctime \<equiv> - 1"

text \<open>
  The conversion of an integer to the 32-bit \<^verbatim>\<open>int\<close>, as in \<^verbatim>\<open>int(stat_buf.st_nlink)\<close>
  and in the assignment \<^verbatim>\<open>e->m_nlink = stat_buf.st_nlink\<close>: the value modulo \<open>2^32\<close>,
  read in two's complement.
\<close>

definition to_int :: "int \<Rightarrow> int" where
  "to_int x = sint (word_of_int x :: 32 word)"

datatype entryStatus = Normal | NonExistent
datatype entryMode = UnknownMode | StatMode | INotifyMode | QFSWatchMode
datatype Method = INotify | Stat | QFSWatch

record Client =
  c_instance :: KDirWatch_ptr
  count :: int
  watchingStopped :: bool
  pending :: int
  m_watchModes :: int

record Entry =
  m_clients :: "Client list"
  m_entries :: "Entry_ptr list"
  m_ctime :: int
  m_ino :: int
  m_nlink :: int
  m_status :: entryStatus
  m_mode :: entryMode
  msecLeft :: int
  e_freq :: int
  isDir :: bool
  dirty :: bool
  wd :: int
  m_pendingFileChanges :: "string list"

subsection \<open>Client registry\<close>

text \<open>
  Modelled from the spec: the constructor of \<^verbatim>\<open>Client\<close> lives in \<^verbatim>\<open>kdirwatch_p.h\<close>.
  A fresh record stands for one registration (\<open>count = 1\<close>) with no coalesced event
  bits; whether it starts stopped is decided by the caller, which passes the engine's
  \<^verbatim>\<open>_isStopped\<close> flag (\<^verbatim>\<open>KDirWatch::isStopped\<close>).
\<close>

definition newClient :: "KDirWatch_ptr \<Rightarrow> int \<Rightarrow> bool \<Rightarrow> Client" where
  "newClient inst watchModes stopped =
     \<lparr>c_instance = inst, count = 1, watchingStopped = stopped, pending = NoChange,
      m_watchModes = watchModes\<rparr>"

text \<open>
  Modelled from the spec: \<^verbatim>\<open>Entry::findInstance\<close> is declared in \<^verbatim>\<open>kdirwatch_p.h\<close>.
  It yields the position of the first client of the given instance, \<open>None\<close> standing
  for \<^verbatim>\<open>m_clients.end()\<close>.
\<close>

fun findInstance :: "KDirWatch_ptr \<Rightarrow> Client list \<Rightarrow> nat option" where
  "findInstance other [] = None"
| "findInstance other (c # cs) =
     (if c_instance c = other then Some 0 else map_option Suc (findInstance other cs))"

definition addClient :: "bool \<Rightarrow> KDirWatch_ptr \<Rightarrow> int \<Rightarrow> Entry \<Rightarrow> Entry" where
  "addClient stopped inst watchModes e =
     (if inst = None then e
      else case findInstance inst (m_clients e) of
        Some i \<Rightarrow>
          e\<lparr>m_clients := (m_clients e)
             [i := (m_clients e ! i)\<lparr>count := count (m_clients e ! i) + 1,
                                     m_watchModes := watchModes\<rparr>]\<rparr>
      | None \<Rightarrow> e\<lparr>m_clients := m_clients e @ [newClient inst watchModes stopped]\<rparr>)"

definition removeClient :: "KDirWatch_ptr \<Rightarrow> Entry \<Rightarrow> Entry" where
  "removeClient inst e =
     (case findInstance inst (m_clients e) of
        Some i \<Rightarrow>
          (let client = (m_clients e ! i)\<lparr>count := count (m_clients e ! i) - 1\<rparr> in
           if count client = 0
           then e\<lparr>m_clients := take i (m_clients e) @ drop (Suc i) (m_clients e)\<rparr>
           else e\<lparr>m_clients := (m_clients e)[i := client]\<rparr>)
      | None \<Rightarrow> e)"

definition clientCount :: "Entry \<Rightarrow> int" where
  "clientCount e = sum_list (map count (m_clients e))"

text \<open>\<^verbatim>\<open>Entry::isValid\<close> (header): the entry still has a client or a sub-entry.\<close>

definition isValid :: "Entry \<Rightarrow> bool" where
  "isValid e = (m_clients e \<noteq> [] \<or> m_entries e \<noteq> [])"

subsection \<open>The operating system and Qt, as the engine calls them\<close>

text \<open>
  The file system is an input of every operation: \<open>QT_STAT\<close> and \<open>QT_LSTAT\<close> give the
  buffer a successful call fills in (\<open>None\<close> when the call fails),
  \<open>fileSystemType_Nfs\<close> answers \<^verbatim>\<open>KFileSystemType::fileSystemType(path) == Nfs\<close>,
  \<open>entryInfoList\<close> lists a directory without dot entries for the chosen
  \<^verbatim>\<open>QDir::Dirs\<close> and \<^verbatim>\<open>QDir::Files\<close> filter bits, \<open>inotify_add_watch\<close> gives
  the watch descriptor the kernel hands out for a path (\<open>-1\<close> on failure, when
  \<open>errno_ENOSPC\<close> tells whether \<^verbatim>\<open>errno == ENOSPC\<close>), and \<open>absolutePath\<close> is
  \<^verbatim>\<open>QFileInfo(path).absolutePath()\<close>: Qt resolves a relative path against the current
  directory of the process, cleans the result and drops its last component.
\<close>

record stat_buf =
  st_mode :: "32 word"
  st_ctime :: int
  st_mtime :: int
  st_ino :: int
  st_nlink :: int

record QFileInfo =
  absoluteFilePath :: string
  fi_isDir :: bool
  fi_isSymLink :: bool

record os =
  QT_STAT :: "string \<Rightarrow> stat_buf option"
  QT_LSTAT :: "string \<Rightarrow> stat_buf option"
  fileSystemType_Nfs :: "string \<Rightarrow> bool"
  entryInfoList :: "string \<Rightarrow> bool \<Rightarrow> bool \<Rightarrow> QFileInfo list"
  inotify_add_watch :: "string \<Rightarrow> int"
  errno_ENOSPC :: "string \<Rightarrow> bool"
  absolutePath :: "string \<Rightarrow> string"

abbreviation (input) QT_STAT_MASK :: "32 word" where "QT_STAT_MASK \<equiv> 0xF000"
abbreviation (input) QT_STAT_DIR :: "32 word" where "QT_STAT_DIR \<equiv> 0x4000"
abbreviation (input) QT_STAT_LNK :: "32 word" where "QT_STAT_LNK \<equiv> 0xA000"

text \<open>
  Qt's string functions as the engine uses them: \<^verbatim>\<open>QString::startsWith\<close>,
  \<^verbatim>\<open>endsWith('/')\<close> followed by \<^verbatim>\<open>chop(1)\<close>, \<^verbatim>\<open>QDir::isRelativePath\<close> and
  \<^verbatim>\<open>QDir(path).isRoot()\<close> on Unix; and \<^verbatim>\<open>Entry::parentDirectory\<close>, which returns
  \<^verbatim>\<open>QFileInfo(path).absolutePath()\<close>.
\<close>

definition startsWith :: "string \<Rightarrow> string \<Rightarrow> bool" where
  "startsWith s pre = (take (length pre) s = pre)"

definition chopSlash :: "string \<Rightarrow> string" where
  "chopSlash path = (if length path > 1 \<and> last path = CHR ''/'' then butlast path else path)"

definition isRelativePath :: "string \<Rightarrow> bool" where
  "isRelativePath f = (case f of [] \<Rightarrow> True | c # _ \<Rightarrow> c \<noteq> CHR ''/'')"

definition isRoot :: "Entry_ptr \<Rightarrow> bool" where
  "isRoot path = (path = ''/'')"

definition parentDirectory :: "os \<Rightarrow> Entry_ptr \<Rightarrow> string" where
  "parentDirectory fs path = absolutePath fs path"

subsection \<open>Engine state\<close>

datatype Slot = setDeleted | setCreated | setDirty

datatype warning =
    QrcLikePath string
  | IsADirectory string
  | IsAFile string
  | FileWithWatchModes string
  | MaxUserWatches string

text \<open>
  The members of \<^verbatim>\<open>KDirWatchPrivate\<close>.  \<open>m_mapEntries\<close> is the \<^verbatim>\<open>QMap\<close> as an
  association list with one pair per key; a timer is \<open>Some interval\<close> while it is active;
  \<open>fsWatcher\<close> is \<open>None\<close> until the \<^verbatim>\<open>QFileSystemWatcher\<close> is created and then holds
  its paths.  Three fields record effects that leave the engine: \<open>queued\<close> the slot
  invocations posted with \<^verbatim>\<open>Qt::QueuedConnection\<close>, in order, \<open>warnings\<close> the
  \<^verbatim>\<open>qCWarning\<close> messages, and \<open>stat_log\<close> the paths given to \<^verbatim>\<open>QT_STAT\<close>.
\<close>

record KDirWatchPrivate =
  m_mapEntries :: "(string \<times> Entry) list"
  freq :: int
  statEntries :: int
  m_nfsPollInterval :: int
  m_PollInterval :: int
  m_preferredMethod :: Method
  m_nfsPreferredMethod :: Method
  m_statRescanTimer :: "int option"
  rescan_timer :: "int option"
  delayRemove :: bool
  removeList :: "Entry_ptr set"
  rescan_all :: bool
  supports_inotify :: bool
  m_inotify_wd_to_entry :: "int \<rightharpoonup> Entry_ptr"
  fsWatcher :: "string set option"
  isStopped :: bool
  queued :: "(KDirWatch_ptr \<times> Slot \<times> string) list"
  warnings :: "warning list"
  stat_log :: "string list"

text \<open>Reading and writing an entry through its pointer.\<close>

definition lookup :: "KDirWatchPrivate \<Rightarrow> Entry_ptr \<Rightarrow> Entry option" where
  "lookup d p = map_of (m_mapEntries d) p"

definition store :: "Entry_ptr \<Rightarrow> Entry \<Rightarrow> KDirWatchPrivate \<Rightarrow> KDirWatchPrivate" where
  "store p e d = d\<lparr>m_mapEntries := AList.update p e (m_mapEntries d)\<rparr>"

text \<open>\<^verbatim>\<open>Entry()\<close>: the value-initialised entry that \<^verbatim>\<open>addEntry\<close> inserts.\<close>

definition Entry0 :: Entry where
  "Entry0 = \<lparr>m_clients = [], m_entries = [], m_ctime = 0, m_ino = 0, m_nlink = 0,
     m_status = Normal, m_mode = UnknownMode, msecLeft = 0, e_freq = 0, isDir = False,
     dirty = False, wd = 0, m_pendingFileChanges = []\<rparr>"

text \<open>
  Every function below that is handed an \<^verbatim>\<open>Entry *\<close> yields \<open>None\<close> when no entry
  lives under that pointer (the C++ would read freed memory), and the recursive ones
  also when their fuel, the first argument, is used up.
\<close>

definition entry :: "KDirWatchPrivate \<Rightarrow> string \<Rightarrow> Entry_ptr option" where
  "entry d path0 =
     (if path0 = [] then None
      else let path = chopSlash path0
           in (case lookup d path of None \<Rightarrow> None | Some e \<Rightarrow> Some path))"

definition useFreq :: "Entry_ptr \<Rightarrow> int \<Rightarrow> KDirWatchPrivate \<Rightarrow> KDirWatchPrivate option" where
  "useFreq p newFreq d =
     (case lookup d p of
        None \<Rightarrow> None
      | Some e \<Rightarrow>
          (let d1 = store p (e\<lparr>e_freq := newFreq\<rparr>) d
           in if newFreq < freq d1
              then Some (d1\<lparr>freq := newFreq,
                            m_statRescanTimer :=
                              (case m_statRescanTimer d1 of None \<Rightarrow> None
                               | Some t \<Rightarrow> Some newFreq)\<rparr>)
              else Some d1))"

definition useStat :: "os \<Rightarrow> Entry_ptr \<Rightarrow> KDirWatchPrivate \<Rightarrow> (bool \<times> KDirWatchPrivate) option" where
  "useStat fs p d =
     (case useFreq p (if fileSystemType_Nfs fs p then m_nfsPollInterval d else m_PollInterval d) d of
        None \<Rightarrow> None
      | Some d1 \<Rightarrow>
          (case lookup d1 p of
             None \<Rightarrow> None
           | Some e \<Rightarrow>
               if m_mode e \<noteq> StatMode
               then (let d2 = (store p (e\<lparr>m_mode := StatMode\<rparr>) d1)
                                \<lparr>statEntries := statEntries d1 + 1\<rparr>
                     in if statEntries d2 = 1
                        then Some (True, d2\<lparr>m_statRescanTimer := Some (freq d2)\<rparr>)
                        else Some (True, d2))
               else Some (True, d1)))"

definition isNoisyFile :: "string \<Rightarrow> bool" where
  "isNoisyFile filename =
     (case filename of
        [] \<Rightarrow> False
      | c # _ \<Rightarrow>
          c = CHR ''.'' \<and>
          (take 6 filename = ''.X.err'' \<or> take 16 filename = ''.xsession-errors''
           \<or> take 12 filename = ''.fonts.cache''))"

definition removeWatch :: "Entry_ptr \<Rightarrow> KDirWatchPrivate \<Rightarrow> KDirWatchPrivate option" where
  "removeWatch p d =
     (case lookup d p of
        None \<Rightarrow> None
      | Some e \<Rightarrow>
          (let d1 = (if m_mode e = INotifyMode
                     then d\<lparr>m_inotify_wd_to_entry := (m_inotify_wd_to_entry d)(wd e := None)\<rparr>
                     else d)
           in if m_mode e = QFSWatchMode
              then (case fsWatcher d1 of
                      None \<Rightarrow> Some d1
                    | Some paths \<Rightarrow> Some (d1\<lparr>fsWatcher := Some (paths - {p})\<rparr>))
              else Some d1))"

subsection \<open>Registering a path and choosing a backend\<close>

text \<open>
  \<^verbatim>\<open>addEntry\<close>, \<^verbatim>\<open>addWatch\<close>, \<^verbatim>\<open>useINotify\<close> and \<^verbatim>\<open>useQFSWatch\<close> call one
  another, and every cycle passes through \<^verbatim>\<open>addEntry\<close>.  Each body is therefore
  written once, with the recursive call of \<^verbatim>\<open>addEntry\<close> as its first argument
  \<open>addEntry'\<close>, and \<open>addEntry\<close> ties the knot by recursion on the fuel: the fuel
  bounds the nesting depth of \<^verbatim>\<open>addEntry\<close> calls.  \<^verbatim>\<open>addWatch\<close> returns, beside the
  new state, the backends it attempted for its entry, in order, each with the result of
  its \<^verbatim>\<open>use...\<close> call.  The default argument of \<^verbatim>\<open>addEntry\<close>,
  \<^verbatim>\<open>watchModes = KDirWatch::WatchDirOnly\<close>, is written out at the calls that rely on it.
\<close>

type_synonym addEntry_fn =
  "KDirWatch_ptr \<Rightarrow> string \<Rightarrow> Entry_ptr option \<Rightarrow> bool \<Rightarrow> int
    \<Rightarrow> KDirWatchPrivate \<Rightarrow> KDirWatchPrivate option"

definition useINotify_body :: "addEntry_fn \<Rightarrow> os \<Rightarrow> Entry_ptr \<Rightarrow> KDirWatchPrivate
    \<Rightarrow> (bool \<times> KDirWatchPrivate) option" where
  "useINotify_body addEntry' fs p d =
     (case lookup d p of
        None \<Rightarrow> None
      | Some e \<Rightarrow>
          (let e1 = e\<lparr>wd := - 1, dirty := False\<rparr> in
           if \<not> supports_inotify d then Some (False, store p e1 d)
           else
             (let e2 = e1\<lparr>m_mode := INotifyMode\<rparr> in
              if m_status e2 = NonExistent
              then (if isRoot p then Some (False, store p e2 d)
                    else (case addEntry' None (parentDirectory fs p) (Some p) True
                                 WatchDirOnly (store p e2 d) of
                            None \<Rightarrow> None
                          | Some d1 \<Rightarrow> Some (True, d1)))
              else
                (let w = inotify_add_watch fs p in
                 if w \<noteq> - 1
                 then Some (True, (store p (e2\<lparr>wd := w\<rparr>) d)
                             \<lparr>m_inotify_wd_to_entry := (m_inotify_wd_to_entry d)(w \<mapsto> p)\<rparr>)
                 else Some (False, (store p (e2\<lparr>wd := w\<rparr>) d)
                             \<lparr>warnings := warnings d @
                                (if errno_ENOSPC fs p then [MaxUserWatches p] else [])\<rparr>)))))"

definition useQFSWatch_body :: "addEntry_fn \<Rightarrow> os \<Rightarrow> Entry_ptr \<Rightarrow> KDirWatchPrivate
    \<Rightarrow> (bool \<times> KDirWatchPrivate) option" where
  "useQFSWatch_body addEntry' fs p d =
     (case lookup d p of
        None \<Rightarrow> None
      | Some e \<Rightarrow>
          (let e1 = e\<lparr>m_mode := QFSWatchMode, dirty := False\<rparr> in
           if m_status e1 = NonExistent
           then (if isRoot p then Some (False, store p e1 d)
                 else (case addEntry' None (parentDirectory fs p) (Some p) True
                              WatchDirOnly (store p e1 d) of
                         None \<Rightarrow> None
                       | Some d1 \<Rightarrow> Some (True, d1)))
           else Some (True, (store p e1 d)
                       \<lparr>fsWatcher := Some (insert p (case fsWatcher d of None \<Rightarrow> {}
                                                     | Some paths \<Rightarrow> paths))\<rparr>)))"

definition addWatch_body :: "addEntry_fn \<Rightarrow> os \<Rightarrow> Entry_ptr \<Rightarrow> KDirWatchPrivate
    \<Rightarrow> ((Method \<times> bool) list \<times> KDirWatchPrivate) option" where
  "addWatch_body addEntry' fs p d =
     (let preferredMethod =
            (if m_nfsPreferredMethod d \<noteq> m_preferredMethod d \<and> fileSystemType_Nfs fs p
             then m_nfsPreferredMethod d else m_preferredMethod d)
      in case (case preferredMethod of
                 INotify \<Rightarrow> useINotify_body addEntry' fs p d
               | QFSWatch \<Rightarrow> useQFSWatch_body addEntry' fs p d
               | Stat \<Rightarrow> useStat fs p d) of
           None \<Rightarrow> None
         | Some (entryAdded, d1) \<Rightarrow>
             (let inotifyFailed = (preferredMethod = INotify \<and> \<not> entryAdded);
                  log1 = [(preferredMethod, entryAdded)]
              in if entryAdded then Some (log1, d1)
                 else
                   (case (if preferredMethod \<noteq> INotify
                          then (case useINotify_body addEntry' fs p d1 of
                                  None \<Rightarrow> None
                                | Some (ok, d') \<Rightarrow> Some ([(INotify, ok)], ok, d'))
                          else Some ([], False, d1)) of
                      None \<Rightarrow> None
                    | Some (log2, ok2, d2) \<Rightarrow>
                        if ok2 then Some (log1 @ log2, d2)
                        else
                          (case (if preferredMethod \<noteq> QFSWatch \<and> \<not> inotifyFailed
                                 then (case useQFSWatch_body addEntry' fs p d2 of
                                         None \<Rightarrow> None
                                       | Some (ok, d') \<Rightarrow> Some ([(QFSWatch, ok)], ok, d'))
                                 else Some ([], False, d2)) of
                             None \<Rightarrow> None
                           | Some (log3, ok3, d3) \<Rightarrow>
                               if ok3 then Some (log1 @ log2 @ log3, d3)
                               else if preferredMethod \<noteq> Stat
                               then (case useStat fs p d3 of
                                       None \<Rightarrow> None
                                     | Some (ok4, d4) \<Rightarrow>
                                         Some (log1 @ log2 @ log3 @ [(Stat, ok4)], d4))
                               else Some (log1 @ log2 @ log3, d3)))))"

text \<open>The loop of \<^verbatim>\<open>addEntry\<close> over \<^verbatim>\<open>basedir.entryInfoList(filters)\<close>.\<close>

primrec addEntry_contents :: "addEntry_fn \<Rightarrow> KDirWatch_ptr \<Rightarrow> int \<Rightarrow> QFileInfo list
    \<Rightarrow> KDirWatchPrivate \<Rightarrow> KDirWatchPrivate option" where
  "addEntry_contents addEntry' inst watchModes [] d = Some d"
| "addEntry_contents addEntry' inst watchModes (fileInfo # contents) d =
     (case addEntry' inst (absoluteFilePath fileInfo) None
             (fi_isDir fileInfo \<and> \<not> fi_isSymLink fileInfo)
             (if fi_isDir fileInfo \<and> \<not> fi_isSymLink fileInfo then watchModes
              else WatchDirOnly) d of
        None \<Rightarrow> None
      | Some d1 \<Rightarrow> addEntry_contents addEntry' inst watchModes contents d1)"

text \<open>
  The straight-line middle of \<^verbatim>\<open>addEntry\<close> for a path that has no entry yet: stat the
  path, insert \<^verbatim>\<open>Entry()\<close> and fill it in (a successful \<^verbatim>\<open>QT_LSTAT\<close> overwrites the
  same buffer), record the sub-entry or the client, and reset mode and counter.  It yields
  \<^verbatim>\<open>exists\<close>, the watch modes as possibly reset for a file, and the new state.
\<close>

definition addEntry_insert :: "os \<Rightarrow> KDirWatch_ptr \<Rightarrow> Entry_ptr \<Rightarrow> Entry_ptr option \<Rightarrow> bool
    \<Rightarrow> int \<Rightarrow> KDirWatchPrivate \<Rightarrow> bool \<times> int \<times> KDirWatchPrivate" where
  "addEntry_insert fs inst path sub_entry is_dir watchModes0 d =
     (let stat_res = QT_STAT fs path;
          exists = (stat_res \<noteq> None);
          lstat_res =
            (case stat_res of
               None \<Rightarrow> None
             | Some sb \<Rightarrow>
                 if st_mode sb AND QT_STAT_MASK = QT_STAT_DIR \<and> \<not> is_dir
                 then QT_LSTAT fs path else None);
          e_isDir =
            (case stat_res of
               None \<Rightarrow> is_dir
             | Some sb \<Rightarrow>
                 (case lstat_res of
                    None \<Rightarrow> st_mode sb AND QT_STAT_MASK = QT_STAT_DIR
                  | Some lb \<Rightarrow>
                      if st_mode lb AND QT_STAT_MASK = QT_STAT_LNK then False
                      else st_mode sb AND QT_STAT_MASK = QT_STAT_DIR));
          buf = (case lstat_res of None \<Rightarrow> stat_res | Some lb \<Rightarrow> Some lb);
          kind_warning =
            (if \<not> exists then []
             else if e_isDir \<and> \<not> is_dir then [IsADirectory path]
             else if \<not> e_isDir \<and> is_dir then [IsAFile path]
             else []);
          modes_warning =
            (if exists \<and> \<not> e_isDir \<and> watchModes0 \<noteq> WatchDirOnly
             then [FileWithWatchModes path] else []);
          watchModes =
            (if exists \<and> \<not> e_isDir \<and> watchModes0 \<noteq> WatchDirOnly
             then WatchDirOnly else watchModes0);
          e1 =
            (case buf of
               Some b \<Rightarrow>
                 Entry0\<lparr>isDir := e_isDir, m_ctime := st_ctime b, m_status := Normal,
                        m_nlink := to_int (st_nlink b), m_ino := st_ino b\<rparr>
             | None \<Rightarrow>
                 Entry0\<lparr>isDir := is_dir, m_ctime := invalid_ctime,
                        m_status := NonExistent, m_nlink := 0, m_ino := 0\<rparr>);
          e2 =
            (case sub_entry of
               Some s \<Rightarrow> e1\<lparr>m_entries := m_entries e1 @ [s]\<rparr>
             | None \<Rightarrow> addClient (isStopped d) inst watchModes e1);
          e3 = e2\<lparr>m_mode := UnknownMode, msecLeft := 0\<rparr>
      in (exists, watchModes,
          store path e3
            (d\<lparr>stat_log := stat_log d @ [path],
               warnings := warnings d @ kind_warning @ modes_warning\<rparr>)))"

definition addEntry_body :: "addEntry_fn \<Rightarrow> os \<Rightarrow> addEntry_fn" where
  "addEntry_body addEntry' fs inst path0 sub_entry is_dir watchModes0 d =
     (if startsWith path0 '':/'' then Some (d\<lparr>warnings := warnings d @ [QrcLikePath path0]\<rparr>)
      else if path0 = [] \<or> path0 = ''/dev''
              \<or> (startsWith path0 ''/dev/'' \<and> \<not> startsWith path0 ''/dev/.''
                  \<and> \<not> startsWith path0 ''/dev/shm'')
      then Some d
      else
        (let path = chopSlash path0 in
         case lookup d path of
           Some ent \<Rightarrow>
             (case sub_entry of
                Some s \<Rightarrow> Some (store path (ent\<lparr>m_entries := m_entries ent @ [s]\<rparr>) d)
              | None \<Rightarrow> Some (store path (addClient (isStopped d) inst watchModes0 ent) d))
         | None \<Rightarrow>
             (case addEntry_insert fs inst path sub_entry is_dir watchModes0 d of
                (exists, watchModes, d1) \<Rightarrow>
                  if isNoisyFile path then Some d1
                  else
                    (case (if exists \<and> (case lookup d1 path of None \<Rightarrow> False
                                          | Some e \<Rightarrow> isDir e)
                              \<and> watchModes \<noteq> WatchDirOnly
                           then addEntry_contents addEntry' inst watchModes
                                  (entryInfoList fs path
                                     (watchModes AND WatchSubDirs \<noteq> 0)
                                     (watchModes AND WatchFiles \<noteq> 0
                                      \<and> m_preferredMethod d \<noteq> INotify))
                                  d1
                           else Some d1) of
                       None \<Rightarrow> None
                     | Some d2 \<Rightarrow>
                         (case addWatch_body addEntry' fs path d2 of
                            None \<Rightarrow> None
                          | Some (attempts, d3) \<Rightarrow> Some d3)))))"

primrec addEntry :: "nat \<Rightarrow> os \<Rightarrow> addEntry_fn" where
  "addEntry 0 fs = (\<lambda>inst path0 sub_entry is_dir watchModes0 d. None)"
| "addEntry (Suc n) fs = addEntry_body (addEntry n fs) fs"

definition addWatch :: "nat \<Rightarrow> os \<Rightarrow> Entry_ptr \<Rightarrow> KDirWatchPrivate
    \<Rightarrow> ((Method \<times> bool) list \<times> KDirWatchPrivate) option" where
  "addWatch n fs = addWatch_body (addEntry n fs) fs"

definition useINotify :: "nat \<Rightarrow> os \<Rightarrow> Entry_ptr \<Rightarrow> KDirWatchPrivate
    \<Rightarrow> (bool \<times> KDirWatchPrivate) option" where
  "useINotify n fs = useINotify_body (addEntry n fs) fs"

definition useQFSWatch :: "nat \<Rightarrow> os \<Rightarrow> Entry_ptr \<Rightarrow> KDirWatchPrivate
    \<Rightarrow> (bool \<times> KDirWatchPrivate) option" where
  "useQFSWatch n fs = useQFSWatch_body (addEntry n fs) fs"

subsection \<open>Removing an entry\<close>

text \<open>
  \<^verbatim>\<open>removeEntry(instance, e, sub_entry)\<close> calls its overload on a path, which looks the
  path up with \<^verbatim>\<open>entry\<close> and calls back; \<open>removeEntry'\<close> stands for that recursive
  call, and the fuel bounds the walk up the parents.
\<close>

type_synonym removeEntry_fn =
  "KDirWatch_ptr \<Rightarrow> Entry_ptr \<Rightarrow> Entry_ptr option \<Rightarrow> KDirWatchPrivate
    \<Rightarrow> KDirWatchPrivate option"

definition removeEntry_path_body :: "removeEntry_fn \<Rightarrow> KDirWatch_ptr \<Rightarrow> string
    \<Rightarrow> Entry_ptr option \<Rightarrow> KDirWatchPrivate \<Rightarrow> KDirWatchPrivate option" where
  "removeEntry_path_body removeEntry' inst path0 sub_entry d =
     (case entry d path0 of
        None \<Rightarrow> Some d
      | Some e \<Rightarrow> removeEntry' inst e sub_entry d)"

text \<open>
  The last statements of \<^verbatim>\<open>removeEntry\<close>: the entry leaves the stat count (the timer
  stops with the last stat entry), the descriptor map and \<^verbatim>\<open>m_mapEntries\<close>.
\<close>

definition removeEntry_erase :: "Entry_ptr \<Rightarrow> Entry \<Rightarrow> KDirWatchPrivate \<Rightarrow> KDirWatchPrivate" where
  "removeEntry_erase p e d =
     (let d1 = (if m_mode e = StatMode
                then d\<lparr>statEntries := statEntries d - 1,
                       m_statRescanTimer :=
                         (if statEntries d - 1 = 0 then None else m_statRescanTimer d)\<rparr>
                else d)
      in d1\<lparr>m_inotify_wd_to_entry := (m_inotify_wd_to_entry d1)(wd e := None),
             m_mapEntries := AList.delete p (m_mapEntries d1)\<rparr>)"

definition removeEntry_body :: "removeEntry_fn \<Rightarrow> os \<Rightarrow> removeEntry_fn" where
  "removeEntry_body removeEntry' fs inst p sub_entry d =
     (case lookup d p of
        None \<Rightarrow> None
      | Some e \<Rightarrow>
          (let e1 = (case sub_entry of
                       Some s \<Rightarrow> e\<lparr>m_entries := removeAll s (m_entries e)\<rparr>
                     | None \<Rightarrow> removeClient inst e);
               d1 = store p e1 (d\<lparr>removeList := removeList d - {p}\<rparr>)
           in if m_clients e1 \<noteq> [] \<or> m_entries e1 \<noteq> [] then Some d1
              else if delayRemove d1 then Some (d1\<lparr>removeList := insert p (removeList d1)\<rparr>)
              else
                (case (if m_status e1 = Normal then removeWatch p d1
                       else removeEntry_path_body removeEntry' None (parentDirectory fs p)
                              (Some p) d1) of
                   None \<Rightarrow> None
                 | Some d2 \<Rightarrow>
                     (case lookup d2 p of
                        None \<Rightarrow> None
                      | Some e2 \<Rightarrow> Some (removeEntry_erase p e2 d2)))))"

primrec removeEntry :: "nat \<Rightarrow> os \<Rightarrow> removeEntry_fn" where
  "removeEntry 0 fs = (\<lambda>inst p sub_entry d. None)"
| "removeEntry (Suc n) fs = removeEntry_body (removeEntry n fs) fs"

definition removeEntry_path :: "nat \<Rightarrow> os \<Rightarrow> KDirWatch_ptr \<Rightarrow> string \<Rightarrow> Entry_ptr option
    \<Rightarrow> KDirWatchPrivate \<Rightarrow> KDirWatchPrivate option" where
  "removeEntry_path n fs = removeEntry_path_body (removeEntry n fs)"

subsection \<open>Event emission\<close>



subsection \<open>The stat scan of one entry\<close>

text \<open>
  \<^verbatim>\<open>scanEntry\<close> in two parts: \<open>scanEntry_stat\<close> is the function from its
  \<^verbatim>\<open>QT_STAT\<close> call to its end (the classification of what the file system shows), and
  \<open>scanEntry\<close> is the whole function, which reaches that call only when the gates of
  the entry's mode let it pass.
\<close>

definition scanEntry_stat :: "nat \<Rightarrow> os \<Rightarrow> Entry_ptr \<Rightarrow> KDirWatchPrivate
    \<Rightarrow> (int \<times> KDirWatchPrivate) option" where
  "scanEntry_stat fuel fs p d =
     (case lookup d p of
        None \<Rightarrow> None
      | Some e \<Rightarrow>
          (let d1 = d\<lparr>stat_log := stat_log d @ [p]\<rparr>
           in case QT_STAT fs p of
                Some stat_buf \<Rightarrow>
                  if m_status e = NonExistent
                  then (case removeEntry_path fuel fs None (parentDirectory fs p) (Some p)
                               (store p (e\<lparr>m_ctime := max (st_ctime stat_buf)
                                                         (st_mtime stat_buf),
                                           m_status := Normal,
                                           m_ino := st_ino stat_buf\<rparr>) d1) of
                          None \<Rightarrow> None
                        | Some d2 \<Rightarrow> Some (Created, d2))
                  else if m_ctime e \<noteq> invalid_ctime
                          \<and> (max (st_ctime stat_buf) (st_mtime stat_buf) \<noteq> m_ctime e
                               \<or> st_ino stat_buf \<noteq> m_ino e
                               \<or> to_int (st_nlink stat_buf) \<noteq> to_int (m_nlink e))
                  then
                    (if m_ino e \<noteq> st_ino stat_buf
                     then (case removeWatch p
                                  (store p (e\<lparr>m_ctime := max (st_ctime stat_buf)
                                                            (st_mtime stat_buf),
                                              m_nlink := to_int (st_nlink stat_buf)\<rparr>) d1) of
                             None \<Rightarrow> None
                           | Some d2 \<Rightarrow>
                               (case addWatch fuel fs p d2 of
                                  None \<Rightarrow> None
                                | Some (attempts, d3) \<Rightarrow>
                                    (case lookup d3 p of
                                       None \<Rightarrow> None
                                     | Some e4 \<Rightarrow>
                                         Some (Deleted OR Created,
                                               store p (e4\<lparr>m_ino := st_ino stat_buf\<rparr>) d3))))
                     else Some (Changed,
                                store p (e\<lparr>m_ctime := max (st_ctime stat_buf)
                                                          (st_mtime stat_buf),
                                            m_nlink := to_int (st_nlink stat_buf)\<rparr>) d1))
                  else Some (NoChange, d1)
              | None \<Rightarrow>
                  if m_ctime e = invalid_ctime
                  then Some (NoChange,
                             store p (e\<lparr>m_nlink := 0, m_ino := 0,
                                         m_status := NonExistent\<rparr>) d1)
                  else Some (Deleted,
                             store p (e\<lparr>m_nlink := 0, m_ino := 0, m_status := NonExistent,
                                         m_ctime := invalid_ctime\<rparr>) d1)))"

definition scanEntry :: "nat \<Rightarrow> os \<Rightarrow> Entry_ptr \<Rightarrow> KDirWatchPrivate
    \<Rightarrow> (int \<times> KDirWatchPrivate) option" where
  "scanEntry fuel fs p d =
     (case lookup d p of
        None \<Rightarrow> None
      | Some e \<Rightarrow>
          if m_mode e = UnknownMode then Some (NoChange, d)
          else if m_mode e = INotifyMode \<and> \<not> dirty e then Some (NoChange, d)
          else
            (let e1 = (if m_mode e = INotifyMode then e\<lparr>dirty := False\<rparr> else e) in
             if m_mode e1 = StatMode \<and> msecLeft e1 - freq d > 0
             then Some (NoChange, store p (e1\<lparr>msecLeft := msecLeft e1 - freq d\<rparr>) d)
             else if m_mode e1 = StatMode
             then scanEntry_stat fuel fs p
                    (store p (e1\<lparr>msecLeft := msecLeft e1 - freq d + e_freq e1\<rparr>) d)
             else scanEntry_stat fuel fs p (store p e1 d)))"

subsection \<open>Suspend and resume\<close>

text \<open>
  The loops of \<^verbatim>\<open>stopEntryScan\<close> and \<^verbatim>\<open>restartEntryScan\<close> over the clients, with
  the counters they accumulate (\<^verbatim>\<open>stillWatching\<close>; \<^verbatim>\<open>wasWatching\<close> and
  \<^verbatim>\<open>newWatching\<close>).
\<close>

fun stopEntryScan_clients :: "KDirWatch_ptr \<Rightarrow> Client list \<Rightarrow> Client list \<times> int" where
  "stopEntryScan_clients inst [] = ([], 0)"
| "stopEntryScan_clients inst (client # cs) =
     (case stopEntryScan_clients inst cs of
        (cs', stillWatching) \<Rightarrow>
          if inst = None \<or> inst = c_instance client
          then (client\<lparr>watchingStopped := True\<rparr> # cs', stillWatching)
          else if \<not> watchingStopped client
          then (client # cs', count client + stillWatching)
          else (client # cs', stillWatching))"

definition stopEntryScan :: "KDirWatch_ptr \<Rightarrow> Entry_ptr \<Rightarrow> KDirWatchPrivate
    \<Rightarrow> (bool \<times> KDirWatchPrivate) option" where
  "stopEntryScan inst p d =
     (case lookup d p of
        None \<Rightarrow> None
      | Some e \<Rightarrow>
          (case stopEntryScan_clients inst (m_clients e) of
             (clients, stillWatching) \<Rightarrow>
               if stillWatching = 0
               then Some (True, store p (e\<lparr>m_clients := clients,
                                            m_ctime := invalid_ctime\<rparr>) d)
               else Some (True, store p (e\<lparr>m_clients := clients\<rparr>) d)))"



subsection \<open>Construction\<close>

text \<open>
  The constructor of \<^verbatim>\<open>KDirWatchPrivate\<close> with none of the four environment variables
  set; its argument tells whether \<^verbatim>\<open>inotify_init\<close> gave a descriptor.
\<close>

definition newKDirWatchPrivate :: "bool \<Rightarrow> KDirWatchPrivate" where
  "newKDirWatchPrivate inotify_ok =
     \<lparr>m_mapEntries = [], freq = 3600000, statEntries = 0, m_nfsPollInterval = 5000,
      m_PollInterval = 500, m_preferredMethod = INotify, m_nfsPreferredMethod = Stat,
      m_statRescanTimer = None, rescan_timer = None, delayRemove = False, removeList = {},
      rescan_all = False, supports_inotify = inotify_ok, m_inotify_wd_to_entry = Map.empty,
      fsWatcher = None, isStopped = False, queued = [], warnings = [], stat_log = []\<rparr>"

section \<open>Relations and sample data used by the theorems\<close>

text \<open>
  \<open>backend_only e e'\<close>: the entries differ at most in the members the backends set
  (descriptor, dirty flag, mode, poll frequency), and \<open>backend_frame d d'\<close> lists
  the engine members no backend touches.  \<open>clients_entries_only e e'\<close>: they
  differ at most in their clients and sub-entries.  \<open>rm_frame d d'\<close>: what a removal
  leaves alone.
\<close>

definition backend_only :: "Entry \<Rightarrow> Entry \<Rightarrow> bool" where
  "backend_only e e' =
     (e' = e\<lparr>wd := wd e', dirty := dirty e', m_mode := m_mode e', e_freq := e_freq e'\<rparr>)"

definition backend_frame :: "KDirWatchPrivate \<Rightarrow> KDirWatchPrivate \<Rightarrow> bool" where
  "backend_frame d d' =
     (stat_log d' = stat_log d \<and> queued d' = queued d \<and> delayRemove d' = delayRemove d
      \<and> removeList d' = removeList d \<and> isStopped d' = isStopped d
      \<and> m_preferredMethod d' = m_preferredMethod d
      \<and> m_nfsPreferredMethod d' = m_nfsPreferredMethod d
      \<and> supports_inotify d' = supports_inotify d)"

definition clients_entries_only :: "Entry \<Rightarrow> Entry \<Rightarrow> bool" where
  "clients_entries_only e e' = (e' = e\<lparr>m_clients := m_clients e', m_entries := m_entries e'\<rparr>)"

definition rm_frame :: "KDirWatchPrivate \<Rightarrow> KDirWatchPrivate \<Rightarrow> bool" where
  "rm_frame d d' =
     (stat_log d' = stat_log d \<and> queued d' = queued d \<and> warnings d' = warnings d
      \<and> delayRemove d' = delayRemove d \<and> freq d' = freq d
      \<and> (\<forall>k e'. lookup d' k = Some e' \<longrightarrow>
            (\<exists>e. lookup d k = Some e \<and> clients_entries_only e e')))"

text \<open>
  The backend selection in the spec's words, over the setup attempt \<open>attempt m\<close> of
  each backend \<open>m\<close>: attempt the preferred backend; on failure fall back in the fixed
  order INotify, generic watcher, Stat, skipping every backend that has already been
  tried, and the generic watcher as well once the native inotify setup has failed.  The
  result lists the attempts made, each with its outcome, beside the state they leave.
  \<open>backend\<close> names the setup attempt of each backend in the code.
\<close>

fun spec_fallback :: "(Method \<Rightarrow> 's \<Rightarrow> (bool \<times> 's) option) \<Rightarrow> Method list \<Rightarrow> Method list
    \<Rightarrow> 's \<Rightarrow> ((Method \<times> bool) list \<times> 's) option" where
  "spec_fallback attempt tried [] d = Some ([], d)"
| "spec_fallback attempt tried (m # order) d =
     (if m \<in> set tried \<or> (m = QFSWatch \<and> INotify \<in> set tried)
      then spec_fallback attempt tried order d
      else case attempt m d of
             None \<Rightarrow> None
           | Some (ok, d1) \<Rightarrow>
               if ok then Some ([(m, True)], d1)
               else (case spec_fallback attempt (m # tried) order d1 of
                       None \<Rightarrow> None
                     | Some (log, d2) \<Rightarrow> Some ((m, False) # log, d2)))"

definition spec_addWatch :: "(Method \<Rightarrow> 's \<Rightarrow> (bool \<times> 's) option) \<Rightarrow> Method \<Rightarrow> 's
    \<Rightarrow> ((Method \<times> bool) list \<times> 's) option" where
  "spec_addWatch attempt preferred d =
     spec_fallback attempt [] [preferred, INotify, QFSWatch, Stat] d"

definition backend :: "nat \<Rightarrow> os \<Rightarrow> Entry_ptr \<Rightarrow> Method \<Rightarrow> KDirWatchPrivate
    \<Rightarrow> (bool \<times> KDirWatchPrivate) option" where
  "backend n fs p m =
     (case m of INotify \<Rightarrow> useINotify n fs p | QFSWatch \<Rightarrow> useQFSWatch n fs p
      | Stat \<Rightarrow> useStat fs p)"

text \<open>
  \<open>listed fs dir\<close>: the keys under which a recursive registration of \<open>dir\<close> registers
  what the directory listings show, at any depth.  \<open>add_frame S d d'\<close>: what a
  registration leaves alone when \<open>S\<close> holds the keys whose clients it may change: the
  delay flag and the stopped flag, and every entry stays, with its clients unless its key
  is in \<open>S\<close>.
\<close>

inductive_set listed :: "os \<Rightarrow> string \<Rightarrow> string set" for fs :: os and dir :: string where
  child: "fi \<in> set (entryInfoList fs dir a b)
            \<Longrightarrow> chopSlash (absoluteFilePath fi) \<in> listed fs dir"
| deeper: "q \<in> listed fs dir \<Longrightarrow> fi \<in> set (entryInfoList fs q a b)
            \<Longrightarrow> chopSlash (absoluteFilePath fi) \<in> listed fs dir"

definition add_frame :: "string set \<Rightarrow> KDirWatchPrivate \<Rightarrow> KDirWatchPrivate \<Rightarrow> bool" where
  "add_frame S d d' =
     (delayRemove d' = delayRemove d \<and> isStopped d' = isStopped d
      \<and> (\<forall>q e. lookup d q = Some e \<longrightarrow>
            (\<exists>e'. lookup d' q = Some e' \<and> (q \<notin> S \<longrightarrow> m_clients e' = m_clients e))))"

text \<open>
  \<open>sub_frame d d'\<close>: what the removal of a sub-entry (no client involved) leaves alone:
  no entry appears, an entry that disappears had no client, and one that stays differs
  at most in its sub-entries.
\<close>

definition sub_frame :: "KDirWatchPrivate \<Rightarrow> KDirWatchPrivate \<Rightarrow> bool" where
  "sub_frame d d' =
     (queued d' = queued d \<and> stat_log d' = stat_log d \<and> freq d' = freq d
      \<and> (\<forall>k. lookup d k = None \<longrightarrow> lookup d' k = None)
      \<and> (\<forall>k e. lookup d k = Some e \<longrightarrow>
            (case lookup d' k of
               None \<Rightarrow> m_clients e = []
             | Some e' \<Rightarrow> e' = e\<lparr>m_entries := m_entries e'\<rparr>)))"

text \<open>\<open>repeat k f\<close> runs an operation \<open>k\<close> times, stopping at the first run without a result.\<close>

primrec repeat :: "nat \<Rightarrow> ('s \<Rightarrow> 's option) \<Rightarrow> 's \<Rightarrow> 's option" where
  "repeat 0 f s = Some s"
| "repeat (Suc k) f s = (case f s of None \<Rightarrow> None | Some s' \<Rightarrow> repeat k f s')"

text \<open>
  The walks from an entry to its parent directory end when the parent directory is
  smaller than the entry in some measure \<open>m\<close>, for every path but the empty one and the
  root (\<open>walks_up\<close>); the walk of \<^verbatim>\<open>removeEntry\<close> also needs the entry of the root
  directory, if there is one, to be in status \<open>Normal\<close> (\<open>root_Normal\<close>).
\<close>

definition walks_up :: "os \<Rightarrow> (string \<Rightarrow> nat) \<Rightarrow> bool" where
  "walks_up fs m =
     (\<forall>p. p \<noteq> [] \<and> p \<noteq> ''/'' \<longrightarrow> m (chopSlash (parentDirectory fs p)) < m p)"

definition root_Normal :: "KDirWatchPrivate \<Rightarrow> bool" where
  "root_Normal d = (\<forall>e. lookup d ''/'' = Some e \<longrightarrow> m_status e = Normal)"

text \<open>
  The sample file system: exactly the paths of \<open>files\<close> exist, no directory lists
  anything, every \<^verbatim>\<open>inotify_add_watch\<close> hands out descriptor 7, and the current directory
  is the root, so that \<^verbatim>\<open>absolutePath\<close> of a path without \<^verbatim>\<open>.\<close>, \<^verbatim>\<open>..\<close> or doubled
  slashes is that path, made absolute, without its last component (\<open>parentOf\<close>).
  \<open>path_measure\<close> is a measure in which this file system walks up.  Then a directory
  \<^verbatim>\<open>/t\<close> watched by instance 1 in stat mode (the state after \<^verbatim>\<open>addDir("/t")\<close> when
  \<^verbatim>\<open>KDIRWATCH_METHOD\<close> is \<^verbatim>\<open>Stat\<close>), running and after \<^verbatim>\<open>stopDirScan("/t")\<close>.
\<close>

definition parentOf :: "string \<Rightarrow> string" where
  "parentOf path =
     (let q = rev (drop 1 (dropWhile (\<lambda>c. c \<noteq> CHR ''/'') (rev path)))
      in if q = [] then ''/'' else q)"

definition path_measure :: "string \<Rightarrow> nat" where
  "path_measure p = length p + (if isRelativePath p then 2 else 0)"

definition fs_of :: "(string \<Rightarrow> stat_buf option) \<Rightarrow> os" where
  "fs_of files =
     \<lparr>QT_STAT = files, QT_LSTAT = files, fileSystemType_Nfs = (\<lambda>path. False),
      entryInfoList = (\<lambda>path dirs files. []), inotify_add_watch = (\<lambda>path. 7),
      errno_ENOSPC = (\<lambda>path. False),
      absolutePath = (\<lambda>path. parentOf (if isRelativePath path then CHR ''/'' # path else path))\<rparr>"

definition dir_buf :: "int \<Rightarrow> int \<Rightarrow> stat_buf" where
  "dir_buf t ino = \<lparr>st_mode = 0x41ED, st_ctime = t, st_mtime = t, st_ino = ino, st_nlink = 2\<rparr>"

definition ex_client :: Client where
  "ex_client = newClient (Some 1) WatchDirOnly False"

definition ex_dir :: Entry where
  "ex_dir = Entry0\<lparr>m_clients := [ex_client], m_ctime := 100, m_ino := 5, m_nlink := 2,
                    m_mode := StatMode, e_freq := 500, isDir := True\<rparr>"

definition ex_engine :: KDirWatchPrivate where
  "ex_engine = store ''/t'' ex_dir
     ((newKDirWatchPrivate True)\<lparr>m_preferredMethod := Stat, freq := 500, statEntries := 1,
                                  m_statRescanTimer := Some 500, stat_log := [''/t'']\<rparr>)"

definition ex_stopped :: KDirWatchPrivate where
  "ex_stopped = store ''/t''
     (ex_dir\<lparr>m_clients := [ex_client\<lparr>watchingStopped := True\<rparr>], m_ctime := invalid_ctime\<rparr>)
     ex_engine"

text \<open>
  \<^verbatim>\<open>/t\<close> watched by instance 1 through inotify (the state after \<^verbatim>\<open>addDir("/t")\<close> with
  the default method, the kernel having handed out descriptor 3), once an inotify event
  has marked the entry dirty.
\<close>

definition ex_watched :: KDirWatchPrivate where
  "ex_watched = store ''/t''
     (ex_dir\<lparr>m_mode := INotifyMode, e_freq := 0, wd := 3, dirty := True\<rparr>)
     ((newKDirWatchPrivate True)\<lparr>m_inotify_wd_to_entry := [3 \<mapsto> ''/t''],
                                  stat_log := [''/t'']\<rparr>)"

text \<open>
  The entry that \<^verbatim>\<open>addEntry\<close> inserts when instance 1 registers the directory
  \<^verbatim>\<open>/t/sub\<close>, which does not exist, before \<^verbatim>\<open>addWatch\<close> runs on it.
\<close>

definition ex_new :: KDirWatchPrivate where
  "ex_new = store ''/t/sub''
     (Entry0\<lparr>m_clients := [ex_client], m_ctime := invalid_ctime, m_status := NonExistent,
             isDir := True\<rparr>)
     ((newKDirWatchPrivate True)\<lparr>stat_log := [''/t/sub'']\<rparr>)"



definition ex_late :: KDirWatchPrivate where
  "ex_late = store ''/t'' (ex_dir\<lparr>m_clients := [ex_client\<lparr>watchingStopped := True\<rparr>]\<rparr>) ex_engine"

section \<open>Client registry: properties\<close>

lemma findInstance_Some_lt:
  "findInstance inst cs = Some i \<Longrightarrow> i < length cs \<and> c_instance (cs ! i) = inst"
  by (induction cs arbitrary: i) (auto split: if_splits)

text \<open>
  Claim C10.  \<^verbatim>\<open>Entry::addClient\<close> called with a null watcher instance returns at once:
  whatever the watch modes and the engine's stopped flag, the entry, and so its whole
  client list with every count and watch-mode set, is left as it was.
\<close>

theorem addClient_null_instance_unchanged:
  "addClient stopped None watchModes e = e"
  by (simp add: addClient_def)

section \<open>Reading and writing entries\<close>

lemmas ex_defs = ex_engine_def ex_stopped_def ex_dir_def ex_client_def newClient_def Entry0_def
  to_int_def
  newKDirWatchPrivate_def fs_of_def dir_buf_def

lemma lookup_store [simp]: "lookup (store p e d) q = (if q = p then Some e else lookup d q)"
  by (simp add: lookup_def store_def update_conv')

lemma store_fields [simp]:
  "freq (store p e d) = freq d" "stat_log (store p e d) = stat_log d"
  "queued (store p e d) = queued d" "warnings (store p e d) = warnings d"
  "delayRemove (store p e d) = delayRemove d" "removeList (store p e d) = removeList d"
  "supports_inotify (store p e d) = supports_inotify d"
  "m_preferredMethod (store p e d) = m_preferredMethod d"
  "m_nfsPreferredMethod (store p e d) = m_nfsPreferredMethod d"
  "m_inotify_wd_to_entry (store p e d) = m_inotify_wd_to_entry d"
  "fsWatcher (store p e d) = fsWatcher d" "statEntries (store p e d) = statEntries d"
  "m_statRescanTimer (store p e d) = m_statRescanTimer d"
  "m_PollInterval (store p e d) = m_PollInterval d"
  "m_nfsPollInterval (store p e d) = m_nfsPollInterval d"
  "isStopped (store p e d) = isStopped d"
  "rescan_timer (store p e d) = rescan_timer d" "rescan_all (store p e d) = rescan_all d"
  by (simp_all add: store_def)

lemma lookup_upd [simp]:
  "lookup (d\<lparr>stat_log := x1\<rparr>) = lookup d"
  "lookup (d\<lparr>warnings := x2\<rparr>) = lookup d"
  "lookup (d\<lparr>queued := x3\<rparr>) = lookup d"
  "lookup (d\<lparr>m_inotify_wd_to_entry := x4\<rparr>) = lookup d"
  "lookup (d\<lparr>fsWatcher := x5\<rparr>) = lookup d"
  "lookup (d\<lparr>freq := x6\<rparr>) = lookup d"
  "lookup (d\<lparr>statEntries := x7\<rparr>) = lookup d"
  "lookup (d\<lparr>m_statRescanTimer := x8\<rparr>) = lookup d"
  "lookup (d\<lparr>removeList := x9\<rparr>) = lookup d"
  "lookup (d\<lparr>rescan_timer := x10\<rparr>) = lookup d"
  "lookup (d\<lparr>delayRemove := x11\<rparr>) = lookup d"
  "lookup (d\<lparr>rescan_all := x12\<rparr>) = lookup d"
  by (simp_all add: lookup_def fun_eq_iff)

lemma backend_only_refl [simp]: "backend_only e e" by (simp add: backend_only_def)

lemma backend_only_trans: "backend_only e e' \<Longrightarrow> backend_only e' e'' \<Longrightarrow> backend_only e e''"
  by (cases e, cases e', cases e'') (simp add: backend_only_def)

lemma backend_only_fields:
  "backend_only e e' \<Longrightarrow> m_status e' = m_status e \<and> m_ctime e' = m_ctime e \<and> m_nlink e' = m_nlink e
     \<and> m_ino e' = m_ino e \<and> msecLeft e' = msecLeft e \<and> m_clients e' = m_clients e
     \<and> m_entries e' = m_entries e \<and> isDir e' = isDir e
     \<and> m_pendingFileChanges e' = m_pendingFileChanges e"
  by (cases e, cases e') (simp add: backend_only_def)

lemma backend_frame_refl [simp]: "backend_frame d d"
  by (simp add: backend_frame_def)

lemma backend_frame_trans: "backend_frame d d' \<Longrightarrow> backend_frame d' d'' \<Longrightarrow> backend_frame d d''"
  by (simp add: backend_frame_def)

lemma useStat_ok:
  assumes "lookup d p = Some e"
  shows "\<exists>d' e'. useStat fs p d = Some (True, d') \<and> lookup d' p = Some e'
     \<and> backend_only e e' \<and> m_mode e' = StatMode \<and> backend_frame d d'"
  using assms by (auto simp: useStat_def useFreq_def Let_def backend_only_def backend_frame_def)

lemma useINotify_body_Normal:
  assumes "lookup d p = Some e" "m_status e = Normal"
  shows "\<exists>ok d' e'. useINotify_body r fs p d = Some (ok, d') \<and> lookup d' p = Some e'
     \<and> backend_only e e' \<and> (ok \<longrightarrow> m_mode e' = INotifyMode) \<and> backend_frame d d'"
  using assms
  by (auto simp: useINotify_body_def Let_def backend_only_def backend_frame_def)

lemma useQFSWatch_body_Normal:
  assumes "lookup d p = Some e" "m_status e = Normal"
  shows "\<exists>d' e'. useQFSWatch_body r fs p d = Some (True, d') \<and> lookup d' p = Some e'
     \<and> backend_only e e' \<and> m_mode e' = QFSWatchMode \<and> backend_frame d d'"
  using assms
  by (auto simp: useQFSWatch_body_def Let_def backend_only_def backend_frame_def)

lemma addWatch_Normal:
  assumes "lookup d p = Some e" "m_status e = Normal"
  shows "\<exists>att d' e'. addWatch n fs p d = Some (att, d') \<and> lookup d' p = Some e'
     \<and> backend_only e e' \<and> m_mode e' \<noteq> UnknownMode \<and> backend_frame d d'"
proof -
  define pm where "pm = (if m_nfsPreferredMethod d \<noteq> m_preferredMethod d \<and> fileSystemType_Nfs fs p
             then m_nfsPreferredMethod d else m_preferredMethod d)"
  show ?thesis
  proof (cases pm)
    case INotify
    obtain ok d1 e1 where u: "useINotify_body (addEntry n fs) fs p d = Some (ok, d1)"
      "lookup d1 p = Some e1" "backend_only e e1" "ok \<longrightarrow> m_mode e1 = INotifyMode"
      "backend_frame d d1"
      using useINotify_body_Normal[OF assms] by blast
    show ?thesis
    proof (cases ok)
      case True
      with u INotify show ?thesis
        by (simp add: addWatch_def addWatch_body_def Let_def pm_def[symmetric])
    next
      case False
      obtain d2 e2 where s: "useStat fs p d1 = Some (True, d2)" "lookup d2 p = Some e2"
        "backend_only e1 e2" "m_mode e2 = StatMode" "backend_frame d1 d2"
        using useStat_ok[OF u(2)] by blast
      with False u s INotify backend_only_trans[OF u(3) s(3)] backend_frame_trans[OF u(5) s(5)]
      show ?thesis
        by (simp add: addWatch_def addWatch_body_def Let_def pm_def[symmetric])
    qed
  next
    case Stat
    obtain d2 e2 where s: "useStat fs p d = Some (True, d2)" "lookup d2 p = Some e2"
        "backend_only e e2" "m_mode e2 = StatMode" "backend_frame d d2"
      using useStat_ok[OF assms(1)] by blast
    with s Stat show ?thesis
      by (simp add: addWatch_def addWatch_body_def Let_def pm_def[symmetric])
  next
    case QFSWatch
    obtain d2 e2 where s: "useQFSWatch_body (addEntry n fs) fs p d = Some (True, d2)"
        "lookup d2 p = Some e2" "backend_only e e2" "m_mode e2 = QFSWatchMode"
        "backend_frame d d2"
      using useQFSWatch_body_Normal[OF assms] by blast
    with s QFSWatch show ?thesis
      by (simp add: addWatch_def addWatch_body_def Let_def pm_def[symmetric])
  qed
qed

lemma removeWatch_ok:
  "lookup d p = Some e \<Longrightarrow> \<exists>d'. removeWatch p d = Some d' \<and> lookup d' = lookup d
     \<and> backend_frame d d'"
  by (cases "fsWatcher d") (simp_all add: removeWatch_def Let_def backend_frame_def)

lemma scanEntry_stat_recreated:
  assumes "lookup d p = Some e" "m_status e = Normal" "QT_STAT fs p = Some sb"
      and "m_ctime e \<noteq> invalid_ctime" "st_ino sb \<noteq> m_ino e"
  shows "\<exists>d1 attempts d2 e2.
           removeWatch p (store p (e\<lparr>m_ctime := max (st_ctime sb) (st_mtime sb), m_nlink := to_int (st_nlink sb)\<rparr>)
                            (d\<lparr>stat_log := stat_log d @ [p]\<rparr>)) = Some d1
         \<and> addWatch fuel fs p d1 = Some (attempts, d2)
         \<and> lookup d2 p = Some e2
         \<and> scanEntry_stat fuel fs p d = Some (Deleted OR Created, store p (e2\<lparr>m_ino := st_ino sb\<rparr>) d2)
         \<and> backend_only (e\<lparr>m_ctime := max (st_ctime sb) (st_mtime sb), m_nlink := to_int (st_nlink sb)\<rparr>) e2
         \<and> m_mode e2 \<noteq> UnknownMode \<and> stat_log d2 = stat_log d @ [p] \<and> queued d2 = queued d"
proof -
  let ?e3 = "e\<lparr>m_ctime := max (st_ctime sb) (st_mtime sb), m_nlink := to_int (st_nlink sb)\<rparr>"
  let ?X = "store p ?e3 (d\<lparr>stat_log := stat_log d @ [p]\<rparr>)"
  have l: "lookup ?X p = Some ?e3" by simp
  obtain d1 where rw: "removeWatch p ?X = Some d1" "lookup d1 = lookup ?X" "backend_frame ?X d1"
    using removeWatch_ok[OF l] by blast
  have l1: "lookup d1 p = Some ?e3" using rw(2) by simp
  have st: "m_status ?e3 = Normal" using assms(2) by simp
  obtain att d2 e2 where aw: "addWatch fuel fs p d1 = Some (att, d2)" "lookup d2 p = Some e2"
      "backend_only ?e3 e2" "m_mode e2 \<noteq> UnknownMode" "backend_frame d1 d2"
    using addWatch_Normal[OF l1 st] by blast
  have "scanEntry_stat fuel fs p d = Some (Deleted OR Created, store p (e2\<lparr>m_ino := st_ino sb\<rparr>) d2)"
    unfolding scanEntry_stat_def Let_def using assms rw(1) aw(1,2) by simp
  moreover have "stat_log d2 = stat_log d @ [p]" "queued d2 = queued d"
    using rw(3) aw(5) by (simp_all add: backend_frame_def)
  ultimately show ?thesis using rw aw by auto
qed

lemma lookup_delete [simp]:
  "lookup (d\<lparr>m_mapEntries := AList.delete p (m_mapEntries d)\<rparr>) k = (if k = p then None else lookup d k)"
  by (simp add: lookup_def delete_conv')

lemma entry_Some: "entry d q = Some k \<Longrightarrow> lookup d k \<noteq> None"
  by (auto simp: entry_def Let_def split: if_splits option.splits)

lemma ceo_refl [simp]: "clients_entries_only e e" by (simp add: clients_entries_only_def)
lemma ceo_trans: "clients_entries_only e e' \<Longrightarrow> clients_entries_only e' e'' \<Longrightarrow> clients_entries_only e e''"
  by (cases e, cases e', cases e'') (simp add: clients_entries_only_def)
lemma ceo_upd [simp]: "clients_entries_only e (e\<lparr>m_entries := x\<rparr>)" "clients_entries_only e (removeClient i e)"
  by (cases e; auto simp: clients_entries_only_def removeClient_def Let_def split: option.splits)+

lemma rm_frame_refl [simp]: "rm_frame d d" by (auto simp: rm_frame_def)
lemma rm_frame_trans:
  assumes "rm_frame d d'" "rm_frame d' d''"
  shows "rm_frame d d''"
proof -
  have "\<exists>e. lookup d k = Some e \<and> clients_entries_only e e''" if "lookup d'' k = Some e''" for k e''
  proof -
    from that assms(2) obtain e' where e': "lookup d' k = Some e'" "clients_entries_only e' e''"
      unfolding rm_frame_def by blast
    from e'(1) assms(1) obtain e where "lookup d k = Some e" "clients_entries_only e e'"
      unfolding rm_frame_def by blast
    with e'(2) show ?thesis using ceo_trans by blast
  qed
  with assms show ?thesis unfolding rm_frame_def by simp
qed

lemma removeWatch_rm_frame: "removeWatch p d = Some d' \<Longrightarrow> rm_frame d d'"
  by (auto simp: removeWatch_def Let_def rm_frame_def split: option.splits if_splits)

lemma removeEntry_erase_frame: "rm_frame d (removeEntry_erase q e2 d)"
  by (auto simp: rm_frame_def removeEntry_erase_def Let_def lookup_def delete_conv' split: if_splits)

lemma removeEntry_body_frame:
  assumes IH: "\<And>inst q sub d d'. r inst q sub d = Some d' \<Longrightarrow> rm_frame d d'"
      and run: "removeEntry_body r fs inst q sub d = Some d'"
  shows "rm_frame d d'"
proof -
  from run obtain e where e: "lookup d q = Some e"
    by (auto simp: removeEntry_body_def split: option.splits)
  let ?e1 = "(case sub of Some s \<Rightarrow> e\<lparr>m_entries := removeAll s (m_entries e)\<rparr> | None \<Rightarrow> removeClient inst e)"
  let ?d1 = "store q ?e1 (d\<lparr>removeList := removeList d - {q}\<rparr>)"
  have ce: "clients_entries_only e ?e1" by (cases sub) simp_all
  have f1: "rm_frame d ?d1"
    using e ce by (auto simp: rm_frame_def)
  have f1': "rm_frame d (?d1\<lparr>removeList := insert q (removeList ?d1)\<rparr>)"
    using e ce by (auto simp: rm_frame_def)
  consider (keep) "m_clients ?e1 \<noteq> [] \<or> m_entries ?e1 \<noteq> []"
    | (delay) "m_clients ?e1 = []" "m_entries ?e1 = []" "delayRemove d"
    | (destroy) "m_clients ?e1 = []" "m_entries ?e1 = []" "\<not> delayRemove d" by blast
  then show ?thesis
  proof cases
    case keep
    with run e have "d' = ?d1" by (simp add: removeEntry_body_def Let_def)
    with f1 show ?thesis by simp
  next
    case delay
    with run e have "d' = ?d1\<lparr>removeList := insert q (removeList ?d1)\<rparr>"
      by (simp add: removeEntry_body_def Let_def)
    with f1' show ?thesis by simp
  next
    case destroy
    let ?r = "(if m_status ?e1 = Normal then removeWatch q ?d1
                       else removeEntry_path_body r None (parentDirectory fs q) (Some q) ?d1)"
    from run e destroy have run': "(case ?r of None \<Rightarrow> None
        | Some d2 \<Rightarrow> (case lookup d2 q of None \<Rightarrow> None | Some e2 \<Rightarrow> Some (removeEntry_erase q e2 d2))) = Some d'"
      by (simp add: removeEntry_body_def Let_def)
    then obtain d2 e2 where d2: "?r = Some d2" "lookup d2 q = Some e2" "d' = removeEntry_erase q e2 d2"
      by (cases ?r) (auto split: option.splits)
    have f2: "rm_frame ?d1 d2"
    proof (cases "m_status ?e1 = Normal")
      case True
      with d2(1) show ?thesis by (simp add: removeWatch_rm_frame)
    next
      case False
      with d2(1) have rp: "removeEntry_path_body r None (parentDirectory fs q) (Some q) ?d1 = Some d2"
        by simp
      show ?thesis
      proof (cases "entry ?d1 (parentDirectory fs q)")
        case None
        with rp show ?thesis by (simp add: removeEntry_path_body_def)
      next
        case (Some k)
        with rp have "r None k (Some q) ?d1 = Some d2" by (simp add: removeEntry_path_body_def)
        then show ?thesis by (rule IH)
      qed
    qed
    from rm_frame_trans[OF rm_frame_trans[OF f1 f2] removeEntry_erase_frame] d2(3) show ?thesis by simp
  qed
qed

lemma removeEntry_frame:
  "removeEntry n fs inst q sub d = Some d' \<Longrightarrow> rm_frame d d'"
proof (induction n arbitrary: inst q sub d d')
  case 0
  then show ?case by simp
next
  case (Suc n)
  show ?case
    by (rule removeEntry_body_frame[where r = "removeEntry n fs"]) (use Suc in simp_all)
qed

lemma removeEntry_path_frame:
  "removeEntry_path n fs inst q sub d = Some d' \<Longrightarrow> rm_frame d d'"
  by (auto simp: removeEntry_path_def removeEntry_path_body_def removeEntry_frame split: option.splits)



lemma ceo_msecLeft: "clients_entries_only e e' \<Longrightarrow> msecLeft e' = msecLeft e"
  by (cases e, cases e') (simp add: clients_entries_only_def)

lemma scanEntry_stat_Normal_total:
  assumes "lookup d p = Some e" "m_status e = Normal"
  shows "\<exists>ev d'. scanEntry_stat fuel fs p d = Some (ev, d')"
proof (cases "QT_STAT fs p")
  case None
  with assms show ?thesis by (simp add: scanEntry_stat_def Let_def)
next
  case (Some sb)
  show ?thesis
  proof (cases "m_ctime e \<noteq> invalid_ctime \<and> st_ino sb \<noteq> m_ino e")
    case True
    with scanEntry_stat_recreated[OF assms Some, of fuel] show ?thesis by blast
  next
    case False
    with assms Some show ?thesis by (auto simp: scanEntry_stat_def Let_def)
  qed
qed

lemma scanEntry_stat_frame:
  assumes "scanEntry_stat fuel fs p d = Some (ev, d')" "lookup d p = Some e"
  shows "stat_log d' = stat_log d @ [p] \<and> queued d' = queued d
       \<and> (\<forall>e'. lookup d' p = Some e' \<longrightarrow> msecLeft e' = msecLeft e)"
proof (cases "QT_STAT fs p")
  case None
  with assms show ?thesis by (auto simp: scanEntry_stat_def Let_def split: if_splits)
next
  case (Some sb)
  show ?thesis
  proof (cases "m_status e")
    case NonExistent
    let ?X = "store p (e\<lparr>m_ctime := max (st_ctime sb) (st_mtime sb), m_status := Normal,
                m_ino := st_ino sb\<rparr>) (d\<lparr>stat_log := stat_log d @ [p]\<rparr>)"
    from assms Some NonExistent
    have "removeEntry_path fuel fs None (parentDirectory fs p) (Some p) ?X = Some d'"
      by (auto simp: scanEntry_stat_def Let_def split: option.splits)
    from removeEntry_path_frame[OF this] have fr: "rm_frame ?X d'" .
    have "msecLeft e' = msecLeft e" if "lookup d' p = Some e'" for e'
    proof -
      from fr that obtain e0 where "lookup ?X p = Some e0" "clients_entries_only e0 e'"
        unfolding rm_frame_def by blast
      then show ?thesis using ceo_msecLeft by fastforce
    qed
    with fr show ?thesis by (simp add: rm_frame_def)
  next
    case Normal
    show ?thesis
    proof (cases "m_ctime e \<noteq> invalid_ctime \<and> st_ino sb \<noteq> m_ino e")
      case True
      then obtain e2 d2 where r:
        "scanEntry_stat fuel fs p d =
           Some (Deleted OR Created, store p (e2\<lparr>m_ino := st_ino sb\<rparr>) d2)"
        "backend_only (e\<lparr>m_ctime := max (st_ctime sb) (st_mtime sb),
                         m_nlink := to_int (st_nlink sb)\<rparr>) e2"
        "stat_log d2 = stat_log d @ [p]" "queued d2 = queued d"
        using scanEntry_stat_recreated[OF assms(2) Normal Some, of fuel] by blast
      from backend_only_fields[OF r(2)] have "msecLeft e2 = msecLeft e" by simp
      with r assms(1) show ?thesis by auto
    next
      case False
      with assms Some Normal show ?thesis
        by (auto simp: scanEntry_stat_def Let_def split: if_splits)
    qed
  qed
qed

lemma scanEntry_pass:
  assumes "lookup d p = Some e" "m_mode e \<noteq> UnknownMode" "m_mode e = INotifyMode \<longrightarrow> dirty e"
     "m_mode e = StatMode \<longrightarrow> msecLeft e - freq d \<le> 0"
  shows "scanEntry fuel fs p d = scanEntry_stat fuel fs p
     (store p (e\<lparr>dirty := (if m_mode e = INotifyMode then False else dirty e),
                 msecLeft := (if m_mode e = StatMode then msecLeft e - freq d + e_freq e
                              else msecLeft e)\<rparr>) d)"
  using assms by (cases "m_mode e") (simp_all add: scanEntry_def Let_def)

lemma store_store [simp]: "store p x (store p y d) = store p x d"
  by (simp add: store_def)

lemma store_stat_log: "store p x (d\<lparr>stat_log := l\<rparr>) = (store p x d)\<lparr>stat_log := l\<rparr>"
  by (simp add: store_def)

lemma scanEntry_stat_changed:
  assumes "lookup d p = Some e" "m_status e = Normal" "QT_STAT fs p = Some sb"
      and "m_ctime e \<noteq> invalid_ctime" "st_ino sb = m_ino e"
      and "max (st_ctime sb) (st_mtime sb) \<noteq> m_ctime e \<or> to_int (st_nlink sb) \<noteq> to_int (m_nlink e)"
  shows "scanEntry_stat fuel fs p d =
           Some (Changed, store p (e\<lparr>m_ctime := max (st_ctime sb) (st_mtime sb),
                                       m_nlink := to_int (st_nlink sb)\<rparr>)
                            (d\<lparr>stat_log := stat_log d @ [p]\<rparr>))"
  using assms by (auto simp: scanEntry_stat_def Let_def)

section \<open>The stat scan: claims\<close>

text \<open>
  Claim C9.  When the stored ctime of an entry is the invalid sentinel (the value
  \<^verbatim>\<open>stopEntryScan\<close> stores once no client is watching any more) and a scan that reaches
  the stat call finds the path missing, \<^verbatim>\<open>scanEntry\<close> returns \<open>NoChange\<close>, not
  \<open>Deleted\<close>: the entry still becomes \<open>NonExistent\<close> with inode and link count zeroed,
  its ctime stays invalid, and nothing is posted to any client.
\<close>

theorem scanEntry_missing_invalid_ctime:
  assumes "lookup d p = Some e"
      and "m_ctime e = invalid_ctime"
      and "QT_STAT fs p = None"
      and "m_mode e \<noteq> UnknownMode"
      and "m_mode e = INotifyMode \<longrightarrow> dirty e"
      and "m_mode e = StatMode \<longrightarrow> msecLeft e - freq d \<le> 0"
  shows "scanEntry fuel fs p d =
           Some (NoChange,
                 store p (e\<lparr>dirty := (if m_mode e = INotifyMode then False else dirty e),
                             msecLeft := (if m_mode e = StatMode
                                          then msecLeft e - freq d + e_freq e else msecLeft e),
                             m_nlink := 0, m_ino := 0, m_status := NonExistent\<rparr>)
                   (d\<lparr>stat_log := stat_log d @ [p]\<rparr>))"
  using assms
  by (simp add: scanEntry_pass scanEntry_stat_def Let_def store_stat_log)

theorem scanEntry_missing_invalid_ctime_witness:
  "stopEntryScan (Some 1) ''/t'' ex_engine = Some (True, ex_stopped)
   \<and> scanEntry 0 (fs_of (\<lambda>path. None)) ''/t'' ex_stopped =
       Some (NoChange,
             store ''/t''
               (ex_dir\<lparr>m_clients := [ex_client\<lparr>watchingStopped := True\<rparr>],
                       m_ctime := invalid_ctime, m_nlink := 0, m_ino := 0,
                       m_status := NonExistent\<rparr>)
               (ex_stopped\<lparr>stat_log := [''/t'', ''/t'']\<rparr>))"
  using scanEntry_missing_invalid_ctime
    [of ex_stopped "''/t''"
        "ex_dir\<lparr>m_clients := [ex_client\<lparr>watchingStopped := True\<rparr>], m_ctime := invalid_ctime\<rparr>"
        "fs_of (\<lambda>path. None)" 0]
  by (simp add: ex_defs stopEntryScan_def store_def lookup_def)

text \<open>
  Claim C6, as amended.  For an entry in status \<open>Normal\<close> whose stored ctime is not the
  invalid sentinel, a scan that reaches the stat call and finds the path missing makes
  the entry \<open>NonExistent\<close>, zeroes inode and link count, sets the ctime to the invalid
  sentinel and returns \<open>Deleted\<close>.
\<close>

theorem scanEntry_missing_Deleted:
  assumes "lookup d p = Some e"
      and "m_status e = Normal"
      and "m_ctime e \<noteq> invalid_ctime"
      and "QT_STAT fs p = None"
      and "m_mode e \<noteq> UnknownMode"
      and "m_mode e = INotifyMode \<longrightarrow> dirty e"
      and "m_mode e = StatMode \<longrightarrow> msecLeft e - freq d \<le> 0"
  shows "scanEntry fuel fs p d =
           Some (Deleted,
                 store p (e\<lparr>dirty := (if m_mode e = INotifyMode then False else dirty e),
                             msecLeft := (if m_mode e = StatMode
                                          then msecLeft e - freq d + e_freq e else msecLeft e),
                             m_nlink := 0, m_ino := 0, m_status := NonExistent,
                             m_ctime := invalid_ctime\<rparr>)
                   (d\<lparr>stat_log := stat_log d @ [p]\<rparr>))"
  using assms
  by (simp add: scanEntry_pass scanEntry_stat_def Let_def store_stat_log)

theorem scanEntry_missing_Deleted_witness:
  "scanEntry 0 (fs_of (\<lambda>path. None)) ''/t'' ex_engine =
     Some (Deleted,
           store ''/t''
             (ex_dir\<lparr>m_nlink := 0, m_ino := 0, m_status := NonExistent,
                     m_ctime := invalid_ctime\<rparr>)
             (ex_engine\<lparr>stat_log := [''/t'', ''/t'']\<rparr>))"
  using scanEntry_missing_Deleted [of ex_engine "''/t''" ex_dir "fs_of (\<lambda>path. None)" 0]
  by (simp add: ex_defs store_def lookup_def)

text \<open>
  The claim as stated fails: after \<^verbatim>\<open>stopEntryScan\<close> the entry of \<^verbatim>\<open>/t\<close> is still
  \<open>Normal\<close>, the path is gone at the scan, and \<^verbatim>\<open>scanEntry\<close> returns \<open>NoChange\<close>.
\<close>

theorem scanEntry_missing_Deleted_counterexample:
  "map_option m_status (lookup ex_stopped ''/t'') = Some Normal
   \<and> QT_STAT (fs_of (\<lambda>path. None)) ''/t'' = None
   \<and> map_option fst (scanEntry 0 (fs_of (\<lambda>path. None)) ''/t'' ex_stopped) = Some NoChange"
  by (simp add: ex_defs store_def lookup_def scanEntry_def scanEntry_stat_def Let_def)

text \<open>
  Claim C2, as amended.  Take an entry in status \<open>Normal\<close> whose path exists when a
  scan reaches the stat call.  If the stored ctime is not the invalid sentinel and the
  observed (max of ctime and mtime, inode, link count as an \<^verbatim>\<open>int\<close>) differs from the
  stored one: when the inode is the stored one, \<^verbatim>\<open>scanEntry\<close> stores the new time and
  link count and returns \<open>Changed\<close>; when the inode differs, it also runs
  \<^verbatim>\<open>removeWatch\<close> and then \<^verbatim>\<open>addWatch\<close> on the entry (both succeed, whatever the
  fuel, and leave the entry with a backend mode), stores the new inode and returns
  \<open>Deleted | Created\<close>.  If the stored ctime is the invalid sentinel, \<^verbatim>\<open>scanEntry\<close>
  returns \<open>NoChange\<close> and leaves the stored ctime, inode and link count as they were:
  only what the gate of the entry's mode updates (the counter of a stat entry, the dirty
  flag of an inotify entry) is stored.
\<close>

theorem scanEntry_identity_changed:
  assumes "lookup d p = Some e"
      and "m_status e = Normal"
      and "QT_STAT fs p = Some sb"
      and "m_mode e \<noteq> UnknownMode"
      and "m_mode e = INotifyMode \<longrightarrow> dirty e"
      and "m_mode e = StatMode \<longrightarrow> msecLeft e - freq d \<le> 0"
  shows "let g = e\<lparr>dirty := (if m_mode e = INotifyMode then False else dirty e),
                    msecLeft := (if m_mode e = StatMode
                                 then msecLeft e - freq d + e_freq e else msecLeft e)\<rparr>;
             e1 = g\<lparr>m_ctime := max (st_ctime sb) (st_mtime sb),
                    m_nlink := to_int (st_nlink sb)\<rparr>;
             d1 = store p e1 (d\<lparr>stat_log := stat_log d @ [p]\<rparr>)
         in (m_ctime e = invalid_ctime \<longrightarrow>
               scanEntry fuel fs p d =
                 Some (NoChange, store p g (d\<lparr>stat_log := stat_log d @ [p]\<rparr>)))
          \<and> (m_ctime e \<noteq> invalid_ctime
              \<and> (max (st_ctime sb) (st_mtime sb), st_ino sb, to_int (st_nlink sb))
                    \<noteq> (m_ctime e, m_ino e, to_int (m_nlink e)) \<longrightarrow>
               (st_ino sb = m_ino e \<longrightarrow> scanEntry fuel fs p d = Some (Changed, d1))
             \<and> (st_ino sb \<noteq> m_ino e \<longrightarrow>
                  (\<exists>d2 attempts d3 e3.
                     removeWatch p d1 = Some d2
                     \<and> addWatch fuel fs p d2 = Some (attempts, d3)
                     \<and> lookup d3 p = Some e3
                     \<and> scanEntry fuel fs p d =
                         Some (Deleted OR Created, store p (e3\<lparr>m_ino := st_ino sb\<rparr>) d3)
                     \<and> m_mode e3 \<noteq> UnknownMode
                     \<and> m_status e3 = Normal
                     \<and> m_ctime e3 = max (st_ctime sb) (st_mtime sb)
                     \<and> m_nlink e3 = to_int (st_nlink sb))))"
proof -
  let ?g = "e\<lparr>dirty := (if m_mode e = INotifyMode then False else dirty e),
              msecLeft := (if m_mode e = StatMode
                           then msecLeft e - freq d + e_freq e else msecLeft e)\<rparr>"
  let ?e1 = "?g\<lparr>m_ctime := max (st_ctime sb) (st_mtime sb), m_nlink := to_int (st_nlink sb)\<rparr>"
  let ?d1 = "store p ?e1 (d\<lparr>stat_log := stat_log d @ [p]\<rparr>)"
  have pass: "scanEntry fuel fs p d = scanEntry_stat fuel fs p (store p ?g d)"
    using assms by (simp add: scanEntry_pass)
  have lg: "lookup (store p ?g d) p = Some ?g" by simp
  have X: "store p ?e1 (store p ?g d\<lparr>stat_log := stat_log (store p ?g d) @ [p]\<rparr>) = ?d1"
    by (simp add: store_def)
  have sentinel: "scanEntry fuel fs p d =
      Some (NoChange, store p ?g (d\<lparr>stat_log := stat_log d @ [p]\<rparr>))"
    if "m_ctime e = invalid_ctime"
    unfolding pass using lg assms(2,3) that
    by (simp add: scanEntry_stat_def Let_def store_stat_log)
  have same: "scanEntry fuel fs p d = Some (Changed, ?d1)"
    if "st_ino sb = m_ino e" "m_ctime e \<noteq> invalid_ctime"
       "(max (st_ctime sb) (st_mtime sb), st_ino sb, to_int (st_nlink sb))
          \<noteq> (m_ctime e, m_ino e, to_int (m_nlink e))"
  proof -
    have "m_status ?g = Normal" "m_ctime ?g \<noteq> invalid_ctime" "st_ino sb = m_ino ?g"
      "max (st_ctime sb) (st_mtime sb) \<noteq> m_ctime ?g
         \<or> to_int (st_nlink sb) \<noteq> to_int (m_nlink ?g)"
      using assms that by auto
    from scanEntry_stat_changed[OF lg this(1) assms(3) this(2,3,4), of fuel]
    show ?thesis unfolding pass X .
  qed
  have diff: "\<exists>d2 attempts d3 e3.
                  removeWatch p ?d1 = Some d2
                  \<and> addWatch fuel fs p d2 = Some (attempts, d3)
                  \<and> lookup d3 p = Some e3
                  \<and> scanEntry fuel fs p d =
                      Some (Deleted OR Created, store p (e3\<lparr>m_ino := st_ino sb\<rparr>) d3)
                  \<and> m_mode e3 \<noteq> UnknownMode
                  \<and> m_status e3 = Normal
                  \<and> m_ctime e3 = max (st_ctime sb) (st_mtime sb)
                  \<and> m_nlink e3 = to_int (st_nlink sb)"
    if ne: "st_ino sb \<noteq> m_ino e" and valid: "m_ctime e \<noteq> invalid_ctime"
  proof -
    have "m_status ?g = Normal" "m_ctime ?g \<noteq> invalid_ctime" "st_ino sb \<noteq> m_ino ?g"
      using assms ne valid by simp_all
    from scanEntry_stat_recreated[OF lg this(1) assms(3) this(2,3), of fuel]
    obtain d2 attempts d3 e3 where r:
      "removeWatch p (store p ?e1 (store p ?g d\<lparr>stat_log := stat_log (store p ?g d) @ [p]\<rparr>)) = Some d2"
      "addWatch fuel fs p d2 = Some (attempts, d3)" "lookup d3 p = Some e3"
      "scanEntry_stat fuel fs p (store p ?g d) =
         Some (Deleted OR Created, store p (e3\<lparr>m_ino := st_ino sb\<rparr>) d3)"
      "backend_only ?e1 e3" "m_mode e3 \<noteq> UnknownMode"
      by blast
    from backend_only_fields[OF r(5)] assms(2)
    have f: "m_status e3 = Normal" "m_ctime e3 = max (st_ctime sb) (st_mtime sb)"
      "m_nlink e3 = to_int (st_nlink sb)" by simp_all
    from r(1) have r1: "removeWatch p ?d1 = Some d2" unfolding X .
    from r1 r(2,3,4,6) f pass show ?thesis by auto
  qed
  from sentinel same diff show ?thesis unfolding Let_def by blast
qed

text \<open>
  The theorem on an inotify entry: \<^verbatim>\<open>/t\<close>, watched under descriptor 3 and marked dirty
  by an event, has been replaced by a directory with inode 9.  The scan drops descriptor
  3, sets up the watch again under the descriptor 7 the kernel hands out, and returns
  \<open>Deleted | Created\<close>.  And on the stat entry that \<^verbatim>\<open>stopDirScan\<close> left with the
  sentinel ctime: the scan returns \<open>NoChange\<close> and keeps inode 5.
\<close>

theorem scanEntry_identity_changed_witness:
  "scanEntry 0 (fs_of (\<lambda>path. if path = ''/t'' then Some (dir_buf 200 9) else None)) ''/t''
     ex_watched =
   Some (Deleted OR Created,
         store ''/t''
           (ex_dir\<lparr>m_mode := INotifyMode, e_freq := 0, wd := 7, dirty := False,
                   m_ctime := 200, m_ino := 9\<rparr>)
           ((newKDirWatchPrivate True)
              \<lparr>m_inotify_wd_to_entry := [3 \<mapsto> ''/t''](3 := None, 7 \<mapsto> ''/t''),
                stat_log := [''/t'', ''/t'']\<rparr>))
   \<and> scanEntry 0 (fs_of (\<lambda>path. if path = ''/t'' then Some (dir_buf 200 9) else None)) ''/t''
        ex_stopped = Some (NoChange, ex_stopped\<lparr>stat_log := [''/t'', ''/t'']\<rparr>)"
  using scanEntry_identity_changed
    [of ex_watched "''/t''"
        "ex_dir\<lparr>m_mode := INotifyMode, e_freq := 0, wd := 3, dirty := True\<rparr>"
        "fs_of (\<lambda>path. if path = ''/t'' then Some (dir_buf 200 9) else None)"
        "dir_buf 200 9" 0]
    scanEntry_identity_changed
    [of ex_stopped "''/t''"
        "ex_dir\<lparr>m_clients := [ex_client\<lparr>watchingStopped := True\<rparr>], m_ctime := invalid_ctime\<rparr>"
        "fs_of (\<lambda>path. if path = ''/t'' then Some (dir_buf 200 9) else None)"
        "dir_buf 200 9" 0]
  by (simp add: ex_defs ex_watched_def store_def lookup_def Let_def addWatch_def
        addWatch_body_def removeWatch_def useINotify_body_def)

text \<open>
  The claim as stated fails: after \<^verbatim>\<open>stopEntryScan\<close> the entry of \<^verbatim>\<open>/t\<close> is \<open>Normal\<close>
  with inode 5, the path exists with inode 9 at the scan, and \<^verbatim>\<open>scanEntry\<close> returns
  \<open>NoChange\<close> and keeps the stored inode.
\<close>

theorem scanEntry_identity_changed_counterexample:
  "map_option m_status (lookup ex_stopped ''/t'') = Some Normal
   \<and> map_option m_ino (lookup ex_stopped ''/t'') = Some 5
   \<and> scanEntry 0 (fs_of (\<lambda>path. if path = ''/t'' then Some (dir_buf 200 9) else None)) ''/t''
        ex_stopped = Some (NoChange, ex_stopped\<lparr>stat_log := [''/t'', ''/t'']\<rparr>)"
  by (simp add: ex_defs store_def lookup_def scanEntry_def scanEntry_stat_def Let_def)

text \<open>
  Claim C7, as amended.  Each scan of a stat-mode entry (the timer tick runs one per valid
  entry) takes the global \<open>freq\<close> off the entry's counter.  While the result is
  positive nothing else happens: no stat call, \<open>NoChange\<close>.  Once it is zero or
  negative the stat classification runs (exactly one \<^verbatim>\<open>QT_STAT\<close> of the path is
  logged), and the entry's own poll frequency is added to the decremented counter; a
  scan of a \<open>Normal\<close> entry always returns.
\<close>

theorem scanEntry_stat_mode_counter:
  assumes "lookup d p = Some e" and "m_mode e = StatMode"
  shows "(msecLeft e - freq d > 0 \<longrightarrow>
            scanEntry fuel fs p d =
              Some (NoChange, store p (e\<lparr>msecLeft := msecLeft e - freq d\<rparr>) d))
       \<and> (msecLeft e - freq d \<le> 0 \<longrightarrow>
            scanEntry fuel fs p d =
              scanEntry_stat fuel fs p
                (store p (e\<lparr>msecLeft := msecLeft e - freq d + e_freq e\<rparr>) d)
            \<and> (\<forall>ev d'. scanEntry fuel fs p d = Some (ev, d') \<longrightarrow>
                  stat_log d' = stat_log d @ [p]
                  \<and> (\<forall>e'. lookup d' p = Some e' \<longrightarrow>
                         msecLeft e' = msecLeft e - freq d + e_freq e))
            \<and> (m_status e = Normal \<longrightarrow> (\<exists>ev d'. scanEntry fuel fs p d = Some (ev, d'))))"
proof -
  let ?d2 = "store p (e\<lparr>msecLeft := msecLeft e - freq d + e_freq e\<rparr>) d"
  have skip: "scanEntry fuel fs p d =
      Some (NoChange, store p (e\<lparr>msecLeft := msecLeft e - freq d\<rparr>) d)"
    if "msecLeft e - freq d > 0"
    using assms that by (simp add: scanEntry_def Let_def)
  have pass: "scanEntry fuel fs p d = scanEntry_stat fuel fs p ?d2" if "msecLeft e - freq d \<le> 0"
    using assms that by (simp add: scanEntry_def Let_def)
  have l2: "lookup ?d2 p = Some (e\<lparr>msecLeft := msecLeft e - freq d + e_freq e\<rparr>)" by simp
  have fr: "stat_log d' = stat_log d @ [p]
        \<and> (\<forall>e'. lookup d' p = Some e' \<longrightarrow> msecLeft e' = msecLeft e - freq d + e_freq e)"
    if "msecLeft e - freq d \<le> 0" "scanEntry fuel fs p d = Some (ev, d')" for ev d'
    using scanEntry_stat_frame[OF _ l2, of fuel fs ev d'] that pass by simp
  have tot: "\<exists>ev d'. scanEntry fuel fs p d = Some (ev, d')"
    if "msecLeft e - freq d \<le> 0" "m_status e = Normal"
    using scanEntry_stat_Normal_total[OF l2, of fuel fs] that pass by simp
  from skip pass fr tot show ?thesis by blast
qed

theorem scanEntry_stat_mode_counter_witness:
  "scanEntry 0 (fs_of (\<lambda>path. if path = ''/t'' then Some (dir_buf 100 5) else None)) ''/t''
     (store ''/t'' (ex_dir\<lparr>msecLeft := 1200\<rparr>) ex_engine) =
     Some (NoChange, store ''/t'' (ex_dir\<lparr>msecLeft := 700\<rparr>) ex_engine)
   \<and> scanEntry 0 (fs_of (\<lambda>path. if path = ''/t'' then Some (dir_buf 200 5) else None)) ''/t''
       (store ''/t'' (ex_dir\<lparr>msecLeft := 300, e_freq := 5000\<rparr>) ex_engine) =
       Some (Changed,
             store ''/t'' (ex_dir\<lparr>msecLeft := 4800, e_freq := 5000, m_ctime := 200\<rparr>)
               (ex_engine\<lparr>stat_log := [''/t'', ''/t'']\<rparr>))"
  using scanEntry_stat_mode_counter
    [of "store ''/t'' (ex_dir\<lparr>msecLeft := 1200\<rparr>) ex_engine" "''/t''"
        "ex_dir\<lparr>msecLeft := 1200\<rparr>" 0
        "fs_of (\<lambda>path. if path = ''/t'' then Some (dir_buf 100 5) else None)"]
    scanEntry_stat_mode_counter
    [of "store ''/t'' (ex_dir\<lparr>msecLeft := 300, e_freq := 5000\<rparr>) ex_engine" "''/t''"
        "ex_dir\<lparr>msecLeft := 300, e_freq := 5000\<rparr>" 0
        "fs_of (\<lambda>path. if path = ''/t'' then Some (dir_buf 200 5) else None)"]
  by (simp add: ex_defs store_def lookup_def scanEntry_stat_def Let_def)

text \<open>
  The claim as stated fails on the state \<^verbatim>\<open>addDir\<close> leaves: the counter is 0 and both
  frequencies are 500, so the decrement gives -500, not zero, yet the entry is scanned
  (its path is logged a second time), and afterwards the counter is 0, not the poll
  frequency 500.
\<close>

theorem scanEntry_stat_mode_counter_counterexample:
  "map_option msecLeft (lookup ex_engine ''/t'') = Some 0
   \<and> map_option e_freq (lookup ex_engine ''/t'') = Some 500
   \<and> freq ex_engine = 500
   \<and> scanEntry 0 (fs_of (\<lambda>path. if path = ''/t'' then Some (dir_buf 100 5) else None)) ''/t''
        ex_engine = Some (NoChange, ex_engine\<lparr>stat_log := [''/t'', ''/t'']\<rparr>)"
  by (simp add: ex_defs store_def lookup_def scanEntry_def scanEntry_stat_def Let_def)

section \<open>Registration: claims\<close>

text \<open>
  Claim C8, as amended.  A registration whose path starts with \<^verbatim>\<open>:/\<close>, is \<^verbatim>\<open>/dev\<close>, or
  lies under \<^verbatim>\<open>/dev/\<close> but not under \<^verbatim>\<open>/dev/.\<close> or \<^verbatim>\<open>/dev/shm\<close> returns at once:
  the entry table, the queue of notifications and every other part of the engine are
  left as they were, so the registration can never produce an event.  A warning is
  logged for the \<^verbatim>\<open>:/\<close> prefix only; a forbidden device path is dropped silently.
\<close>

theorem addEntry_rejected_path:
  assumes "startsWith path0 '':/'' \<or> path0 = ''/dev''
           \<or> (startsWith path0 ''/dev/'' \<and> \<not> startsWith path0 ''/dev/.''
               \<and> \<not> startsWith path0 ''/dev/shm'')"
  shows "addEntry (Suc n) fs inst path0 sub_entry is_dir watchModes d =
           Some (if startsWith path0 '':/''
                 then d\<lparr>warnings := warnings d @ [QrcLikePath path0]\<rparr> else d)"
  using assms by (auto simp: addEntry_body_def)

theorem addEntry_rejected_path_witness:
  "addEntry (Suc 0) (fs_of (\<lambda>path. None)) (Some 1) '':/kio5/newfile-templates'' None True
     WatchDirOnly ex_engine =
     Some (ex_engine\<lparr>warnings := [QrcLikePath '':/kio5/newfile-templates'']\<rparr>)
   \<and> addEntry (Suc 0) (fs_of (\<lambda>path. None)) (Some 1) ''/dev/sda'' None False
       WatchDirOnly ex_engine = Some ex_engine"
  using addEntry_rejected_path
      [of "'':/kio5/newfile-templates''" 0 "fs_of (\<lambda>path. None)" "Some 1" None True
          WatchDirOnly ex_engine]
    addEntry_rejected_path
      [of "''/dev/sda''" 0 "fs_of (\<lambda>path. None)" "Some 1" None False WatchDirOnly ex_engine]
  by (simp add: startsWith_def ex_defs store_def)

text \<open>
  The claim as stated fails: registering \<^verbatim>\<open>/dev\<close> logs no warning.
\<close>

theorem addEntry_rejected_path_counterexample:
  "addEntry (Suc 0) (fs_of (\<lambda>path. None)) (Some 1) ''/dev'' None True WatchDirOnly
     (newKDirWatchPrivate True) = Some (newKDirWatchPrivate True)
   \<and> warnings (newKDirWatchPrivate True) = []"
  by (simp add: addEntry_body_def startsWith_def newKDirWatchPrivate_def)

lemma useStat_True: "useStat fs p d = Some (ok, d') \<Longrightarrow> ok"
  by (auto simp: useStat_def Let_def split: option.splits if_splits)

section \<open>Walking up the parent directories\<close>

lemma sub_frame_refl [simp]: "sub_frame d d"
  by (auto simp: sub_frame_def)












lemma chopSlash_le: "length (chopSlash x) \<le> length x"
  by (simp add: chopSlash_def)

lemma chopSlash_nonempty: "x \<noteq> [] \<Longrightarrow> chopSlash x \<noteq> []"
  by (cases x; cases "tl x") (auto simp: chopSlash_def)

lemma chopSlash_absolute: "\<not> isRelativePath x \<Longrightarrow> \<not> isRelativePath (chopSlash x)"
  by (cases x; cases "tl x") (auto simp: chopSlash_def isRelativePath_def)

lemma parentOf_prefix:
  "\<exists>r. x = rev (drop 1 (dropWhile (\<lambda>c. c \<noteq> CHR ''/'') (rev x))) @ r"
proof (cases "dropWhile (\<lambda>c. c \<noteq> CHR ''/'') (rev x)")
  case Nil
  show ?thesis unfolding Nil by simp
next
  case (Cons a l)
  have "rev x = takeWhile (\<lambda>c. c \<noteq> CHR ''/'') (rev x) @ dropWhile (\<lambda>c. c \<noteq> CHR ''/'') (rev x)"
    by simp
  then have "rev (rev x) = rev (takeWhile (\<lambda>c. c \<noteq> CHR ''/'') (rev x) @ a # l)"
    unfolding Cons by simp
  then have "x = rev l @ a # rev (takeWhile (\<lambda>c. c \<noteq> CHR ''/'') (rev x))" by simp
  then show ?thesis unfolding Cons by auto
qed

lemma parentOf_absolute: "\<not> isRelativePath x \<Longrightarrow> \<not> isRelativePath (parentOf x)"
proof -
  assume a: "\<not> isRelativePath x"
  then obtain t where x: "x = CHR ''/'' # t" by (cases x) (auto simp: isRelativePath_def)
  let ?q = "rev (drop 1 (dropWhile (\<lambda>c. c \<noteq> CHR ''/'') (rev x)))"
  from parentOf_prefix[of x] obtain r where r: "x = ?q @ r" by blast
  show ?thesis
  proof (cases "?q = []")
    case True
    then show ?thesis by (simp add: parentOf_def isRelativePath_def)
  next
    case False
    then obtain h u where hu: "?q = h # u" by (cases ?q) auto
    with r x have "h = CHR ''/''" by (metis append_Cons list.inject)
    with hu False show ?thesis by (simp add: parentOf_def Let_def isRelativePath_def)
  qed
qed

lemma parentOf_shorter:
  assumes "\<not> isRelativePath k" "k \<noteq> ''/''"
  shows "length (chopSlash (parentOf k)) < length k"
proof -
  from assms(1) obtain t where k: "k = CHR ''/'' # t" by (cases k) (auto simp: isRelativePath_def)
  let ?q = "drop 1 (dropWhile (\<lambda>c. c \<noteq> CHR ''/'') (rev k))"
  have "CHR ''/'' \<in> set (rev k)" using k by simp
  then have ne: "dropWhile (\<lambda>c. c \<noteq> CHR ''/'') (rev k) \<noteq> []" by simp
  have "length (dropWhile (\<lambda>c. c \<noteq> CHR ''/'') (rev k)) \<le> length (rev k)"
    by (rule length_dropWhile_le)
  with ne have l: "length ?q < length k"
    by (cases "dropWhile (\<lambda>c. c \<noteq> CHR ''/'') (rev k)") auto
  from assms(2) k have k2: "1 < length k" by (cases t) auto
  show ?thesis
  proof (cases "?q = []")
    case True
    then have "parentOf k = ''/''" by (simp add: parentOf_def)
    with k2 show ?thesis by (simp add: chopSlash_def)
  next
    case False
    then have "parentOf k = rev ?q" by (simp add: parentOf_def Let_def)
    with l chopSlash_le[of "rev ?q"] show ?thesis by simp
  qed
qed

lemma walks_up_fs_of: "walks_up (fs_of files) path_measure"
proof -
  have "path_measure (chopSlash (parentDirectory (fs_of files) p)) < path_measure p"
    if p: "p \<noteq> []" "p \<noteq> ''/''" for p
  proof (cases "isRelativePath p")
    case True
    let ?a = "CHR ''/'' # p"
    have a: "\<not> isRelativePath ?a" "?a \<noteq> ''/''" using p by (simp_all add: isRelativePath_def)
    have pd: "parentDirectory (fs_of files) p = parentOf ?a"
      using True by (simp add: parentDirectory_def fs_of_def)
    have "\<not> isRelativePath (chopSlash (parentOf ?a))"
      by (rule chopSlash_absolute[OF parentOf_absolute[OF a(1)]])
    with parentOf_shorter[OF a] True show ?thesis
      unfolding pd by (simp add: path_measure_def)
  next
    case False
    have pd: "parentDirectory (fs_of files) p = parentOf p"
      using False by (simp add: parentDirectory_def fs_of_def)
    have "\<not> isRelativePath (chopSlash (parentOf p))"
      by (rule chopSlash_absolute[OF parentOf_absolute[OF False]])
    with parentOf_shorter[OF False p(2)] False show ?thesis
      unfolding pd by (simp add: path_measure_def)
  qed
  then show ?thesis by (simp add: walks_up_def)
qed




lemma root_Normal_upd [simp]:
  "root_Normal (d\<lparr>removeList := l\<rparr>) = root_Normal d"
  "root_Normal (d\<lparr>stat_log := sl\<rparr>) = root_Normal d"
  by (simp_all add: root_Normal_def)



section \<open>Choosing a backend: claim\<close>

lemma addWatch_spec:
  "addWatch n fs p d =
     spec_addWatch (backend n fs p)
       (if fileSystemType_Nfs fs p then m_nfsPreferredMethod d else m_preferredMethod d) d"
proof -
  define pm where "pm = (if m_nfsPreferredMethod d \<noteq> m_preferredMethod d \<and> fileSystemType_Nfs fs p
             then m_nfsPreferredMethod d else m_preferredMethod d)"
  have pm: "(if fileSystemType_Nfs fs p then m_nfsPreferredMethod d else m_preferredMethod d) = pm"
    by (simp add: pm_def)
  define I where "I = useINotify_body (addEntry n fs) fs p"
  define Q where "Q = useQFSWatch_body (addEntry n fs) fs p"
  define S where "S = useStat fs p"
  have b: "backend n fs p INotify = I" "backend n fs p QFSWatch = Q" "backend n fs p Stat = S"
    by (simp_all add: backend_def I_def Q_def S_def useINotify_def useQFSWatch_def)
  have st: "S x = Some (ok, y) \<Longrightarrow> ok" for x ok y unfolding S_def by (rule useStat_True)
  note unf = addWatch_def addWatch_body_def Let_def pm_def[symmetric] spec_addWatch_def
    I_def[symmetric] Q_def[symmetric] S_def[symmetric] b
  have last: "(case S x of None \<Rightarrow> None | Some (ok4, d4) \<Rightarrow> Some (l @ [(Stat, ok4)], d4))
      = (case S x of None \<Rightarrow> None
         | Some (ok, d1) \<Rightarrow> if ok then Some (l @ [(Stat, True)], d1)
                            else Some (l @ [(Stat, False)], d1))" for x l
    by (auto split: option.splits)
  have "addWatch n fs p d = spec_addWatch (backend n fs p) pm d"
  proof (cases pm)
    case INotify
    show ?thesis
    proof (cases "I d")
      case None
      with INotify show ?thesis by (simp add: unf)
    next
      case (Some r)
      obtain ok d1 where r: "r = (ok, d1)" by (cases r)
      show ?thesis
      proof (cases ok)
        case True
        with INotify Some r show ?thesis by (simp add: unf)
      next
        case False
        with INotify Some r show ?thesis
          by (cases "S d1") (auto simp: unf)
      qed
    qed
  next
    case Stat
    show ?thesis
    proof (cases "S d")
      case None
      with Stat show ?thesis by (simp add: unf)
    next
      case (Some r)
      obtain ok d1 where r: "r = (ok, d1)" by (cases r)
      with Some st have ok by blast
      with Stat Some r show ?thesis by (simp add: unf)
    qed
  next
    case QFSWatch
    show ?thesis
    proof (cases "Q d")
      case None
      with QFSWatch show ?thesis by (simp add: unf)
    next
      case (Some r)
      obtain ok d1 where r: "r = (ok, d1)" by (cases r)
      show ?thesis
      proof (cases ok)
        case True
        with QFSWatch Some r show ?thesis by (simp add: unf)
      next
        case False
        note f1 = this
        show ?thesis
        proof (cases "I d1")
          case None
          with QFSWatch Some r f1 show ?thesis by (simp add: unf)
        next
          case (Some r2)
          obtain ok2 d2 where r2: "r2 = (ok2, d2)" by (cases r2)
          show ?thesis
          proof (cases ok2)
            case True
            with QFSWatch \<open>Q d = Some r\<close> r f1 Some r2 show ?thesis by (simp add: unf)
          next
            case False
            with QFSWatch \<open>Q d = Some r\<close> r f1 Some r2 show ?thesis
              by (cases "S d2") (auto simp: unf)
          qed
        qed
      qed
    qed
  qed
  then show ?thesis unfolding pm .
qed


lemma useINotify_body_total:
  assumes "lookup d p = Some e"
      and "\<And>d0. m_status e = NonExistent \<Longrightarrow> p \<noteq> ''/'' \<Longrightarrow>
             \<exists>d1. r None (parentDirectory fs p) (Some p) True WatchDirOnly d0 = Some d1"
  shows "\<exists>ok d'. useINotify_body r fs p d = Some (ok, d')
           \<and> (\<not> ok \<longrightarrow> (\<exists>e'. lookup d' p = Some e' \<and> m_status e' = m_status e))"
proof (cases "supports_inotify d \<and> m_status e = NonExistent \<and> p \<noteq> ''/''")
  case True
  let ?d0 = "store p (e\<lparr>wd := - 1, dirty := False, m_mode := INotifyMode\<rparr>) d"
  from assms(2)[of ?d0] True obtain d1 where
    "r None (parentDirectory fs p) (Some p) True WatchDirOnly ?d0 = Some d1" by blast
  with assms(1) True show ?thesis
    by (auto simp: useINotify_body_def Let_def isRoot_def)
next
  case False
  with assms(1) show ?thesis
    by (auto simp: useINotify_body_def Let_def isRoot_def)
qed

lemma useQFSWatch_body_total:
  assumes "lookup d p = Some e"
      and "\<And>d0. m_status e = NonExistent \<Longrightarrow> p \<noteq> ''/'' \<Longrightarrow>
             \<exists>d1. r None (parentDirectory fs p) (Some p) True WatchDirOnly d0 = Some d1"
  shows "\<exists>ok d'. useQFSWatch_body r fs p d = Some (ok, d')
           \<and> (\<not> ok \<longrightarrow> (\<exists>e'. lookup d' p = Some e' \<and> m_status e' = m_status e))"
proof (cases "m_status e = NonExistent \<and> p \<noteq> ''/''")
  case True
  let ?d0 = "store p (e\<lparr>m_mode := QFSWatchMode, dirty := False\<rparr>) d"
  from assms(2)[of ?d0] True obtain d1 where
    "r None (parentDirectory fs p) (Some p) True WatchDirOnly ?d0 = Some d1" by blast
  with assms(1) True show ?thesis
    by (auto simp: useQFSWatch_body_def Let_def isRoot_def)
next
  case False
  with assms(1) show ?thesis
    by (auto simp: useQFSWatch_body_def Let_def isRoot_def)
qed

lemma useStat_total:
  assumes "lookup d p = Some e"
  shows "\<exists>d'. useStat fs p d = Some (True, d')"
  using useStat_ok[OF assms] by blast

lemma addWatch_body_total:
  assumes e: "lookup d p = Some e"
      and R: "\<And>d0. m_status e = NonExistent \<Longrightarrow> p \<noteq> ''/'' \<Longrightarrow>
             \<exists>d1. r None (parentDirectory fs p) (Some p) True WatchDirOnly d0 = Some d1"
  shows "\<exists>res. addWatch_body r fs p d = Some res"
proof -
  define pm where "pm = (if m_nfsPreferredMethod d \<noteq> m_preferredMethod d \<and> fileSystemType_Nfs fs p
             then m_nfsPreferredMethod d else m_preferredMethod d)"
  note unf = addWatch_body_def Let_def pm_def[symmetric]
  have I: "\<exists>ok d'. useINotify_body r fs p x = Some (ok, d')
           \<and> (\<not> ok \<longrightarrow> (\<exists>e'. lookup d' p = Some e' \<and> m_status e' = m_status e))"
    if "lookup x p = Some ex" "m_status ex = m_status e" for x ex
    using useINotify_body_total[OF that(1), of r fs] R that(2) by simp
  have Q: "\<exists>ok d'. useQFSWatch_body r fs p x = Some (ok, d')
           \<and> (\<not> ok \<longrightarrow> (\<exists>e'. lookup d' p = Some e' \<and> m_status e' = m_status e))"
    if "lookup x p = Some ex" "m_status ex = m_status e" for x ex
    using useQFSWatch_body_total[OF that(1), of r fs] R that(2) by simp
  show ?thesis
  proof (cases pm)
    case INotify
    from I[OF e] obtain ok d1 where u: "useINotify_body r fs p d = Some (ok, d1)"
      "\<not> ok \<longrightarrow> (\<exists>e'. lookup d1 p = Some e' \<and> m_status e' = m_status e)" by auto
    show ?thesis
    proof (cases ok)
      case True
      with u INotify show ?thesis by (simp add: unf)
    next
      case False
      with u obtain e1 where "lookup d1 p = Some e1" by auto
      from useStat_total[OF this] obtain d2 where "useStat fs p d1 = Some (True, d2)" by blast
      with False u INotify show ?thesis by (simp add: unf)
    qed
  next
    case Stat
    from useStat_total[OF e] obtain d2 where "useStat fs p d = Some (True, d2)" by blast
    with Stat show ?thesis by (simp add: unf)
  next
    case QFSWatch
    from Q[OF e] obtain ok d1 where u: "useQFSWatch_body r fs p d = Some (ok, d1)"
      "\<not> ok \<longrightarrow> (\<exists>e'. lookup d1 p = Some e' \<and> m_status e' = m_status e)" by auto
    show ?thesis
    proof (cases ok)
      case True
      with u QFSWatch show ?thesis by (simp add: unf)
    next
      case False
      with u obtain e1 where e1: "lookup d1 p = Some e1" "m_status e1 = m_status e" by auto
      from I[OF e1] obtain ok2 d2 where u2: "useINotify_body r fs p d1 = Some (ok2, d2)"
        "\<not> ok2 \<longrightarrow> (\<exists>e'. lookup d2 p = Some e' \<and> m_status e' = m_status e)" by auto
      show ?thesis
      proof (cases ok2)
        case True
        with False u u2 QFSWatch show ?thesis by (simp add: unf)
      next
        case f2: False
        with u2 obtain e2 where "lookup d2 p = Some e2" by auto
        from useStat_total[OF this] obtain d3 where "useStat fs p d2 = Some (True, d3)" by blast
        with False f2 u u2 QFSWatch show ?thesis by (simp add: unf)
      qed
    qed
  qed
qed

lemma addClient_fields [simp]:
  "m_status (addClient st inst w e) = m_status e"
  "m_entries (addClient st inst w e) = m_entries e"
  by (simp_all add: addClient_def split: option.splits)

lemma addEntry_insert_lookup:
  assumes "addEntry_insert fs inst path sub is_dir w d = (ex, w', d1)"
  shows "\<exists>e. lookup d1 path = Some e
        \<and> m_status e = (if QT_STAT fs path = None then NonExistent else Normal)
        \<and> (w = WatchDirOnly \<longrightarrow> w' = WatchDirOnly)"
proof (cases "QT_STAT fs path")
  case None
  with assms show ?thesis
    by (cases sub) (auto simp: addEntry_insert_def Let_def)
next
  case (Some sb)
  show ?thesis
  proof (cases "st_mode sb AND QT_STAT_MASK = QT_STAT_DIR \<and> \<not> is_dir")
    case True
    with assms Some show ?thesis
      by (cases sub; cases "QT_LSTAT fs path") (auto simp: addEntry_insert_def Let_def)
  next
    case False
    with assms Some show ?thesis
      by (cases sub) (auto simp: addEntry_insert_def Let_def)
  qed
qed

lemma addEntry_up_total:
  assumes up: "walks_up fs m"
  shows "m (chopSlash path0) < n \<Longrightarrow>
     \<exists>d'. addEntry n fs None path0 (Some sub) True WatchDirOnly d = Some d'"
proof (induction n arbitrary: path0 sub d)
  case 0
  then show ?case by simp
next
  case (Suc n)
  let ?key = "chopSlash path0"
  show ?case
  proof (cases "startsWith path0 '':/'' \<or> path0 = [] \<or> path0 = ''/dev''
              \<or> (startsWith path0 ''/dev/'' \<and> \<not> startsWith path0 ''/dev/.''
                  \<and> \<not> startsWith path0 ''/dev/shm'')")
    case True
    then show ?thesis by (auto simp: addEntry_body_def)
  next
    case False
    then have ne: "path0 \<noteq> []" by simp
    then have kne: "?key \<noteq> []" by (rule chopSlash_nonempty)
    show ?thesis
    proof (cases "lookup d ?key")
      case (Some ent)
      with False show ?thesis by (simp add: addEntry_body_def Let_def)
    next
      case None
      obtain ex w' d1 where ins: "addEntry_insert fs None ?key (Some sub) True WatchDirOnly d
          = (ex, w', d1)" by (cases "addEntry_insert fs None ?key (Some sub) True WatchDirOnly d")
      from addEntry_insert_lookup[OF ins] obtain e1 where
        e1: "lookup d1 ?key = Some e1" "w' = WatchDirOnly" by auto
      have R: "\<exists>dd. addEntry n fs None (parentDirectory fs ?key) (Some ?key) True WatchDirOnly d0
                 = Some dd" if "?key \<noteq> ''/''" for d0
      proof -
        from up kne that have "m (chopSlash (parentDirectory fs ?key)) < m ?key"
          by (simp add: walks_up_def)
        with Suc.prems have "m (chopSlash (parentDirectory fs ?key)) < n" by simp
        from Suc.IH[OF this] show ?thesis .
      qed
      from addWatch_body_total[OF e1(1), of "addEntry n fs" fs] R
      obtain res where "addWatch_body (addEntry n fs) fs ?key d1 = Some res" by blast
      with False None ins e1(2) show ?thesis
        by (cases res) (simp add: addEntry_body_def Let_def)
    qed
  qed
qed

lemma addWatch_total:
  assumes "lookup d p = Some e" "p \<noteq> []" "walks_up fs m" "m p \<le> n"
  shows "\<exists>res. addWatch n fs p d = Some res"
proof -
  have "\<exists>d1. addEntry n fs None (parentDirectory fs p) (Some p) True WatchDirOnly d0 = Some d1"
    if "p \<noteq> ''/''" for d0
  proof -
    from assms(2,3) that have "m (chopSlash (parentDirectory fs p)) < m p"
      by (simp add: walks_up_def)
    with assms(4) have "m (chopSlash (parentDirectory fs p)) < n" by simp
    from addEntry_up_total[OF assms(3) this] show ?thesis .
  qed
  with addWatch_body_total[OF assms(1), of "addEntry n fs" fs] show ?thesis
    by (simp add: addWatch_def)
qed

lemma addWatch_no_generic_after_inotify:
  assumes run: "addWatch n fs p d = Some (attempts, d')"
  shows "\<forall>i j. i < j \<and> j < length attempts \<and> attempts ! i = (INotify, False)
                 \<longrightarrow> fst (attempts ! j) \<noteq> QFSWatch"
proof -
  define pm where "pm = (if m_nfsPreferredMethod d \<noteq> m_preferredMethod d \<and> fileSystemType_Nfs fs p
             then m_nfsPreferredMethod d else m_preferredMethod d)"
  show ?thesis
  proof (cases pm)
    case INotify
    from run INotify show ?thesis
      by (auto simp: addWatch_def addWatch_body_def Let_def pm_def[symmetric]
            less_Suc_eq nth_Cons'
          split: option.splits if_splits dest: useStat_True)
  next
    case Stat
    from run Stat show ?thesis
      by (auto simp: addWatch_def addWatch_body_def Let_def pm_def[symmetric]
            less_Suc_eq nth_Cons'
          split: option.splits if_splits dest: useStat_True)
  next
    case QFSWatch
    from run QFSWatch show ?thesis
      by (auto simp: addWatch_def addWatch_body_def Let_def pm_def[symmetric]
            less_Suc_eq nth_Cons'
          split: option.splits if_splits dest: useStat_True)
  qed
qed


text \<open>
  Claim C4.  \<^verbatim>\<open>addWatch\<close> is the spec's procedure run on the code's backends: it
  attempts the preferred backend (the NFS-preferred one on a network mount) and, on
  failure, INotify, the generic watcher and Stat in that order, without any backend
  tried before, and without the generic watcher once an inotify attempt has failed; it
  yields the state these attempts leave.  It returns on every entry in status \<open>Normal\<close>
  whatever the fuel, and on every entry when the walk up the parent directories ends
  within the fuel.
\<close>

theorem addWatch_attempt_order:
  "addWatch n fs p d =
     spec_addWatch (backend n fs p)
       (if fileSystemType_Nfs fs p then m_nfsPreferredMethod d else m_preferredMethod d) d
   \<and> (\<forall>attempts d'. addWatch n fs p d = Some (attempts, d') \<longrightarrow>
         (\<forall>i j. i < j \<and> j < length attempts \<and> attempts ! i = (INotify, False)
                 \<longrightarrow> fst (attempts ! j) \<noteq> QFSWatch))
   \<and> (\<forall>e. lookup d p = Some e
            \<and> (m_status e = Normal \<or> (p \<noteq> [] \<and> walks_up fs m \<and> m p \<le> n))
          \<longrightarrow> (\<exists>attempts d'. addWatch n fs p d = Some (attempts, d')))"
proof -
  have B: "\<exists>attempts d'. addWatch n fs p d = Some (attempts, d')"
    if "lookup d p = Some e \<and> (m_status e = Normal \<or> (p \<noteq> [] \<and> walks_up fs m \<and> m p \<le> n))"
    for e
  proof (cases "m_status e = Normal")
    case True
    with that addWatch_Normal[of d p e n fs] show ?thesis by blast
  next
    case False
    with that addWatch_total[of d p e fs m n] show ?thesis by auto
  qed
  from addWatch_spec[of n fs p d] addWatch_no_generic_after_inotify[of n fs p d] B
  show ?thesis by blast
qed

text \<open>
  The theorem on the entry of \<^verbatim>\<open>/t/sub\<close>, which does not exist, in a directory
  \<^verbatim>\<open>/t\<close> that does: inotify is set up through the parent directory, which gets an
  entry with \<^verbatim>\<open>/t/sub\<close> as its sub-entry.  Without inotify support the attempt
  fails and \<^verbatim>\<open>addWatch\<close> falls back to Stat, leaving the generic watcher out.
\<close>

theorem addWatch_attempt_order_witness:
  "map_option (\<lambda>(a, d'). (a, map_option m_mode (lookup d' ''/t/sub''),
                            map_option m_entries (lookup d' ''/t'')))
     (addWatch 6 (fs_of (\<lambda>path. if path = ''/t'' then Some (dir_buf 100 5) else None))
        ''/t/sub'' ex_new)
     = Some ([(INotify, True)], Some INotifyMode, Some [''/t/sub''])
   \<and> map_option (\<lambda>(a, d'). (a, map_option m_mode (lookup d' ''/t/sub''),
                            map_option m_entries (lookup d' ''/t'')))
     (spec_addWatch
        (backend 6 (fs_of (\<lambda>path. if path = ''/t'' then Some (dir_buf 100 5) else None))
           ''/t/sub'')
        INotify ex_new)
     = Some ([(INotify, True)], Some INotifyMode, Some [''/t/sub''])
   \<and> map_option (\<lambda>(a, d'). (a, map_option m_mode (lookup d' ''/t/sub''), lookup d' ''/t''))
     (addWatch 6 (fs_of (\<lambda>path. None)) ''/t/sub'' (ex_new\<lparr>supports_inotify := False\<rparr>))
     = Some ([(INotify, False), (Stat, True)], Some StatMode, None)
   \<and> (\<exists>attempts d'.
         addWatch 6 (fs_of (\<lambda>path. None)) ''/t/sub'' (ex_new\<lparr>m_preferredMethod := QFSWatch\<rparr>)
           = Some (attempts, d'))"
proof -
  let ?fs = "fs_of (\<lambda>path. if path = ''/t'' then Some (dir_buf 100 5) else None)"
  let ?f0 = "fs_of (\<lambda>path. None)"
  note defs = ex_new_def ex_defs store_def lookup_def Let_def addWatch_def addWatch_body_def
    useINotify_body_def useQFSWatch_body_def useStat_def useFreq_def isRoot_def
    parentDirectory_def parentOf_def isRelativePath_def chopSlash_def startsWith_def
    addEntry_body_def addEntry_insert_def isNoisyFile_def
  have six: "(6::nat) = Suc (Suc (Suc (Suc (Suc (Suc 0)))))" by simp
  have a: "map_option (\<lambda>(a, d'). (a, map_option m_mode (lookup d' ''/t/sub''),
                            map_option m_entries (lookup d' ''/t'')))
     (addWatch 6 ?fs ''/t/sub'' ex_new)
     = Some ([(INotify, True)], Some INotifyMode, Some [''/t/sub''])"
    unfolding six by (simp add: defs)
  have pm: "(if fileSystemType_Nfs ?fs ''/t/sub'' then m_nfsPreferredMethod ex_new
             else m_preferredMethod ex_new) = INotify"
    by (simp add: fs_of_def ex_new_def newKDirWatchPrivate_def store_def)
  from addWatch_attempt_order[where n = 6 and fs = ?fs and p = "''/t/sub''" and d = ex_new
      and m = path_measure]
  have "addWatch 6 ?fs ''/t/sub'' ex_new = spec_addWatch (backend 6 ?fs ''/t/sub'') INotify ex_new"
    unfolding pm by blast
  with a have b: "map_option (\<lambda>(a, d'). (a, map_option m_mode (lookup d' ''/t/sub''),
                            map_option m_entries (lookup d' ''/t'')))
     (spec_addWatch (backend 6 ?fs ''/t/sub'') INotify ex_new)
     = Some ([(INotify, True)], Some INotifyMode, Some [''/t/sub''])" by simp
  have c: "map_option (\<lambda>(a, d'). (a, map_option m_mode (lookup d' ''/t/sub''), lookup d' ''/t''))
     (addWatch 6 ?f0 ''/t/sub'' (ex_new\<lparr>supports_inotify := False\<rparr>))
     = Some ([(INotify, False), (Stat, True)], Some StatMode, None)"
    unfolding six by (simp add: defs)
  have l: "lookup (ex_new\<lparr>m_preferredMethod := QFSWatch\<rparr>) ''/t/sub''
      = Some (Entry0\<lparr>m_clients := [ex_client], m_ctime := invalid_ctime,
                      m_status := NonExistent, isDir := True\<rparr>)"
    by (simp add: ex_new_def store_def lookup_def update_conv')
  have "''/t/sub'' \<noteq> [] \<and> walks_up ?f0 path_measure \<and> path_measure ''/t/sub'' \<le> 6"
    using walks_up_fs_of[of "\<lambda>path. None"] by (simp add: path_measure_def isRelativePath_def)
  with l addWatch_attempt_order[where n = 6 and fs = ?f0 and p = "''/t/sub''"
      and d = "ex_new\<lparr>m_preferredMethod := QFSWatch\<rparr>" and m = path_measure]
  have d: "\<exists>attempts d'.
         addWatch 6 ?f0 ''/t/sub'' (ex_new\<lparr>m_preferredMethod := QFSWatch\<rparr>)
           = Some (attempts, d')" by blast
  from a b c d show ?thesis by blast
qed

section \<open>Suspend and resume: claims\<close>






lemma to_int_to_int [simp]: "to_int (to_int x) = to_int x"
  by (simp add: to_int_def)













end
